theory Spec2Isabelle
  imports Main "HOL-Library.Sublist"
begin

section \<open>Data model (src/common/types.py)\<close>

text \<open>
  The node kinds of the syntax tree, in the order of the enum \<open>ASTNodeType\<close>.
\<close>

datatype ASTNodeType =
    SELECT_STMT | COLUMN_LIST | TABLE_NAME | WHERE_CLAUSE | CONDITION | IDENTIFIER | LITERAL
  | JOIN_CLAUSE | JOIN_TYPE | ON_CLAUSE
  | GROUP_BY_CLAUSE | HAVING_CLAUSE | AGGREGATE_FUNCTION
  | ORDER_BY_CLAUSE | ORDER_SPEC
  | SUBQUERY
  | TABLE_REF | TABLE_ALIAS

text \<open>
  The dataclass \<open>ASTNode\<close>: \<open>type\<close>, \<open>value: Optional[str]\<close> and the ordered list of
  children (\<open>__post_init__\<close> replaces a missing list by the empty one). The fields are
  called \<open>ntype\<close> and \<open>nvalue\<close> here, \<open>type\<close> and \<open>value\<close> being reserved words.
\<close>

datatype ASTNode = ASTNode (ntype: ASTNodeType) (nvalue: "string option") (children: "ASTNode list")

text \<open>
  The analyzer stores untyped Python values in the fields of a quadruple: \<open>None\<close>, a
  string, or (for the column specification of the final \<open>SELECT\<close>) a list whose elements
  are node values and temporaries.
\<close>

datatype pyval = PNone | PStr string | PList "string option list"

fun of_opt :: "string option \<Rightarrow> pyval" where
  "of_opt None = PNone"
| "of_opt (Some v) = PStr v"

text \<open>Python's truth value of an optional string: \<open>None\<close> and \<open>""\<close> are false.\<close>

fun truthy :: "string option \<Rightarrow> bool" where
  "truthy None = False"
| "truthy (Some v) = (v \<noteq> [])"

record Quadruple =
  op :: pyval
  arg1 :: pyval
  arg2 :: pyval
  result :: pyval

record Symbol =
  sym_name :: "string option"
  sym_type :: string
  sym_scope :: string
  sym_line :: int
  sym_column :: int

text \<open>The class \<open>SymbolTable\<close>: a dict from the symbol's name to the symbol.\<close>

type_synonym SymbolTable = "string option \<rightharpoonup> Symbol"

definition add_symbol :: "SymbolTable \<Rightarrow> Symbol \<Rightarrow> SymbolTable" where
  "add_symbol symbols symbol = symbols(sym_name symbol \<mapsto> symbol)"

definition lookup :: "SymbolTable \<Rightarrow> string option \<Rightarrow> Symbol option" where
  "lookup symbols nm = symbols nm"

text \<open>
  The exceptions a pass can meet. \<open>SemanticError\<close> carries the message given to its
  constructor; \<open>TypeError\<close> is the interpreter's own (a call with the wrong number of
  arguments, \<open>str.join\<close> over a list holding \<open>None\<close>), its message is not modelled.
\<close>

datatype error = SemanticError string | TypeError

section \<open>Strings\<close>

text \<open>The decimal numeral of a natural number, as \<open>str(n)\<close> and an f-string print it.\<close>

definition digit_char :: "nat \<Rightarrow> char" where
  "digit_char d = ''0123456789'' ! d"

function str_of_nat :: "nat \<Rightarrow> string" where
  "str_of_nat n = (if n < 10 then [digit_char n] else str_of_nat (n div 10) @ [digit_char (n mod 10)])"
  by pat_completeness auto
termination
  by (relation "measure (\<lambda>n. n)") auto

declare str_of_nat.simps [simp del]

text \<open>An f-string prints \<open>None\<close> as the word \<open>None\<close> and a string as itself.\<close>

fun fmt :: "string option \<Rightarrow> string" where
  "fmt None = ''None''"
| "fmt (Some v) = v"

text \<open>\<open>sep.join(xs)\<close> on strings.\<close>

fun join_strs :: "string \<Rightarrow> string list \<Rightarrow> string" where
  "join_strs sep [] = []"
| "join_strs sep [x] = x"
| "join_strs sep (x # y # ys) = x @ sep @ join_strs sep (y # ys)"

text \<open>\<open>sep.join(xs)\<close> on a list of node values: it raises \<open>TypeError\<close> if an item is \<open>None\<close>.\<close>

definition py_join :: "string \<Rightarrow> string option list \<Rightarrow> error + string" where
  "py_join sep xs = (if None \<in> set xs then Inl TypeError else Inr (join_strs sep (map the xs)))"

text \<open>\<open>str(ast.type)\<close> of a member of the enum.\<close>

fun type_str :: "ASTNodeType \<Rightarrow> string" where
  "type_str SELECT_STMT = ''ASTNodeType.SELECT_STMT''"
| "type_str COLUMN_LIST = ''ASTNodeType.COLUMN_LIST''"
| "type_str TABLE_NAME = ''ASTNodeType.TABLE_NAME''"
| "type_str WHERE_CLAUSE = ''ASTNodeType.WHERE_CLAUSE''"
| "type_str CONDITION = ''ASTNodeType.CONDITION''"
| "type_str IDENTIFIER = ''ASTNodeType.IDENTIFIER''"
| "type_str LITERAL = ''ASTNodeType.LITERAL''"
| "type_str JOIN_CLAUSE = ''ASTNodeType.JOIN_CLAUSE''"
| "type_str JOIN_TYPE = ''ASTNodeType.JOIN_TYPE''"
| "type_str ON_CLAUSE = ''ASTNodeType.ON_CLAUSE''"
| "type_str GROUP_BY_CLAUSE = ''ASTNodeType.GROUP_BY_CLAUSE''"
| "type_str HAVING_CLAUSE = ''ASTNodeType.HAVING_CLAUSE''"
| "type_str AGGREGATE_FUNCTION = ''ASTNodeType.AGGREGATE_FUNCTION''"
| "type_str ORDER_BY_CLAUSE = ''ASTNodeType.ORDER_BY_CLAUSE''"
| "type_str ORDER_SPEC = ''ASTNodeType.ORDER_SPEC''"
| "type_str SUBQUERY = ''ASTNodeType.SUBQUERY''"
| "type_str TABLE_REF = ''ASTNodeType.TABLE_REF''"
| "type_str TABLE_ALIAS = ''ASTNodeType.TABLE_ALIAS''"

section \<open>The analyzer (src/compiler/semantic/extended_analyzer.py)\<close>

text \<open>
  The instance state of \<open>ExtendedSemanticAnalyzer\<close>. The two constant dicts \<open>operators\<close>
  and \<open>aggregate_functions\<close> are never read by the class and are left out. The field
  \<open>issued\<close> is a history variable that is not in the source: it records, in order, every
  name \<open>_generate_temp\<close> has returned on this instance. No routine reads it.
\<close>

record analyzer =
  symbol_table :: SymbolTable
  quadruples :: "Quadruple list"
  temp_counter :: nat
  label_counter :: nat
  issued :: "string list"

definition init :: analyzer where
  "init = \<lparr>symbol_table = Map.empty, quadruples = [], temp_counter = 0, label_counter = 0,
           issued = []\<rparr>"

definition emit :: "pyval \<Rightarrow> pyval \<Rightarrow> pyval \<Rightarrow> pyval \<Rightarrow> analyzer \<Rightarrow> analyzer" where
  "emit opr a1 a2 res s =
     s\<lparr>quadruples := quadruples s @ [\<lparr>op = opr, arg1 = a1, arg2 = a2, result = res\<rparr>]\<rparr>"

text \<open>
  A call \<open>self._emit(...)\<close> with an arbitrary list of positional arguments: the method has
  four parameters besides \<open>self\<close>, and any other number of arguments raises
  \<open>TypeError\<close> before the body runs.
\<close>

definition emit_call :: "pyval list \<Rightarrow> analyzer \<Rightarrow> (error + unit) \<times> analyzer" where
  "emit_call args s =
     (case args of
        [opr, a1, a2, res] \<Rightarrow> (Inr (), emit opr a1 a2 res s)
      | _ \<Rightarrow> (Inl TypeError, s))"

definition temp_name :: "nat \<Rightarrow> string" where
  "temp_name n = ''T'' @ str_of_nat n"

definition generate_temp :: "analyzer \<Rightarrow> string \<times> analyzer" where
  "generate_temp s =
     (let s1 = s\<lparr>temp_counter := temp_counter s + 1\<rparr>;
          t = temp_name (temp_counter s1)
      in (t, s1\<lparr>issued := issued s1 @ [t]\<rparr>))"

definition generate_label :: "analyzer \<Rightarrow> string \<times> analyzer" where
  "generate_label s =
     (let s1 = s\<lparr>label_counter := label_counter s + 1\<rparr>
      in (''L'' @ str_of_nat (label_counter s1), s1))"

subsection \<open>FROM\<close>

record table_info =
  main_table :: "string option"
  tables :: "string option list"
  aliases :: "(string \<times> string) list"

definition from_clause_body :: "ASTNode \<Rightarrow> table_info \<Rightarrow> analyzer \<Rightarrow> table_info \<times> analyzer" where
  "from_clause_body child ti s =
     (if ntype child = TABLE_NAME then
        let table_name = nvalue child
        in (ti\<lparr>main_table := table_name, tables := tables ti @ [table_name]\<rparr>,
            s\<lparr>symbol_table := add_symbol (symbol_table s)
                 \<lparr>sym_name = table_name, sym_type = ''TABLE'', sym_scope = ''GLOBAL'',
                  sym_line = 0, sym_column = 0\<rparr>\<rparr>)
      else (ti, s))"

fun from_clause_loop :: "ASTNode list \<Rightarrow> table_info \<Rightarrow> analyzer \<Rightarrow> table_info \<times> analyzer" where
  "from_clause_loop [] ti s = (ti, s)"
| "from_clause_loop (child # rest) ti s =
     (case from_clause_body child ti s of (ti1, s1) \<Rightarrow> from_clause_loop rest ti1 s1)"

definition analyze_from_clause :: "ASTNode \<Rightarrow> analyzer \<Rightarrow> table_info \<times> analyzer" where
  "analyze_from_clause node s =
     from_clause_loop (children node) \<lparr>main_table = None, tables = [], aliases = []\<rparr> s"

subsection \<open>The select list\<close>

record select_info =
  columns :: pyval
  aggregates :: "(string option \<times> string) list"
  has_aggregates :: bool

definition get_aggregate_column :: "ASTNode \<Rightarrow> string" where
  "get_aggregate_column agg_node = ''value''"

text \<open>
  \<open>columns\<close> after \<open>column_name\<close> (or a temporary) is added: appended when \<open>columns\<close> is a
  list, and a new one-element list otherwise.
\<close>

definition add_column :: "pyval \<Rightarrow> string option \<Rightarrow> pyval" where
  "add_column cols c = (case cols of PList xs \<Rightarrow> PList (xs @ [c]) | _ \<Rightarrow> PList [c])"

definition column_list_body :: "ASTNode \<Rightarrow> select_info \<Rightarrow> analyzer \<Rightarrow> select_info \<times> analyzer" where
  "column_list_body child si s =
     (if ntype child = IDENTIFIER then
        let column_name = nvalue child
        in if column_name = Some ''*'' then (si\<lparr>columns := PStr ''*''\<rparr>, s)
           else (si\<lparr>columns := add_column (columns si) column_name\<rparr>, s)
      else if ntype child = AGGREGATE_FUNCTION then
        let func_name = nvalue child;
            si1 = si\<lparr>has_aggregates := True\<rparr>;
            (agg_temp, s1) = generate_temp s;
            s2 = (if func_name = Some ''COUNT''
                  then emit (PStr ''COUNT'') (PStr ''*'') PNone (PStr agg_temp) s1
                  else let column_arg = get_aggregate_column child
                       in emit (of_opt func_name) (PStr column_arg) PNone (PStr agg_temp) s1);
            si2 = si1\<lparr>aggregates := aggregates si1 @ [(func_name, agg_temp)]\<rparr>
        in (si2\<lparr>columns := add_column (columns si2) (Some agg_temp)\<rparr>, s2)
      else (si, s))"

fun column_list_loop :: "ASTNode list \<Rightarrow> select_info \<Rightarrow> analyzer \<Rightarrow> select_info \<times> analyzer" where
  "column_list_loop [] si s = (si, s)"
| "column_list_loop (child # rest) si s =
     (case column_list_body child si s of (si1, s1) \<Rightarrow> column_list_loop rest si1 s1)"

definition analyze_column_list :: "ASTNode \<Rightarrow> select_info \<Rightarrow> analyzer \<Rightarrow> select_info \<times> analyzer" where
  "analyze_column_list node si s = column_list_loop (children node) si s"

text \<open>The loop of \<open>_analyze_select_list\<close> leaves at the first \<open>COLUMN_LIST\<close> child.\<close>

fun select_list_loop :: "ASTNode list \<Rightarrow> select_info \<Rightarrow> analyzer \<Rightarrow> select_info \<times> analyzer" where
  "select_list_loop [] si s = (si, s)"
| "select_list_loop (child # rest) si s =
     (if ntype child = COLUMN_LIST then analyze_column_list child si s
      else select_list_loop rest si s)"

definition analyze_select_list :: "ASTNode \<Rightarrow> analyzer \<Rightarrow> select_info \<times> analyzer" where
  "analyze_select_list node s =
     select_list_loop (children node)
       \<lparr>columns = PList [], aggregates = [], has_aggregates = False\<rparr> s"

subsection \<open>JOIN\<close>

text \<open>The dict returned by \<open>_analyze_join_condition\<close>, keys \<open>left\<close>, \<open>right\<close>, \<open>op\<close>.\<close>

record join_condition =
  jc_left :: string
  jc_right :: string
  jc_op :: string

definition analyze_join_condition :: "ASTNode \<Rightarrow> join_condition" where
  "analyze_join_condition node = \<lparr>jc_left = ''table1.id'', jc_right = ''table2.id'', jc_op = ''EQ''\<rparr>"

text \<open>
  The loop of \<open>_analyze_join_clause\<close> over the children of one \<open>JOIN_CLAUSE\<close>; its
  variables are \<open>join_table\<close>, \<open>join_condition\<close> and the shared \<open>table_info\<close>.
\<close>

definition join_clause_body ::
  "ASTNode \<Rightarrow> string option \<times> join_condition option \<times> table_info
     \<Rightarrow> string option \<times> join_condition option \<times> table_info" where
  "join_clause_body child v =
     (case v of (join_table, join_cond, ti) \<Rightarrow>
        if ntype child = TABLE_NAME then
          (nvalue child, join_cond, ti\<lparr>tables := tables ti @ [nvalue child]\<rparr>)
        else if ntype child = ON_CLAUSE then
          (join_table, Some (analyze_join_condition child), ti)
        else (join_table, join_cond, ti))"

fun join_clause_loop ::
  "ASTNode list \<Rightarrow> string option \<times> join_condition option \<times> table_info
     \<Rightarrow> string option \<times> join_condition option \<times> table_info" where
  "join_clause_loop [] v = v"
| "join_clause_loop (child # rest) v = join_clause_loop rest (join_clause_body child v)"

definition analyze_join_clause :: "ASTNode \<Rightarrow> table_info \<Rightarrow> analyzer \<Rightarrow> table_info \<times> analyzer" where
  "analyze_join_clause node ti s =
     (case join_clause_loop (children node) (None, None, ti) of
        (join_table, join_cond, ti1) \<Rightarrow>
          (case join_cond of
             Some jc \<Rightarrow>
               if truthy join_table then
                 let (join_temp, s1) = generate_temp s;
                     s2 = emit (PStr ''JOIN'') (of_opt (main_table ti1)) (of_opt join_table)
                            (PStr join_temp) s1;
                     s3 = emit (PStr ''ON'') (PStr (jc_left jc)) (PStr (jc_right jc))
                            (PStr (jc_op jc)) s2
                 in (ti1, s3)
               else (ti1, s)
           | None \<Rightarrow> (ti1, s)))"

fun join_clauses_loop :: "ASTNode list \<Rightarrow> table_info \<Rightarrow> analyzer \<Rightarrow> table_info \<times> analyzer" where
  "join_clauses_loop [] ti s = (ti, s)"
| "join_clauses_loop (child # rest) ti s =
     (if ntype child = JOIN_CLAUSE then
        (case analyze_join_clause child ti s of (ti1, s1) \<Rightarrow> join_clauses_loop rest ti1 s1)
      else join_clauses_loop rest ti s)"

definition analyze_join_clauses :: "ASTNode \<Rightarrow> table_info \<Rightarrow> analyzer \<Rightarrow> table_info \<times> analyzer" where
  "analyze_join_clauses node ti s = join_clauses_loop (children node) ti s"

subsection \<open>Conditions, WHERE and HAVING\<close>

text \<open>
  \<open>_analyze_condition\<close> takes a temporary and then calls \<open>_emit\<close> with five arguments.
\<close>

definition analyze_condition :: "ASTNode \<Rightarrow> analyzer \<Rightarrow> (error + string option) \<times> analyzer" where
  "analyze_condition node s =
     (let (condition_temp, s1) = generate_temp s
      in case emit_call [PStr ''CONDITION'', PStr ''column'', PStr ''>'', PStr ''value'',
                         PStr condition_temp] s1 of
           (Inl e, s2) \<Rightarrow> (Inl e, s2)
         | (Inr _, s2) \<Rightarrow> (Inr (Some condition_temp), s2))"

fun where_clause_loop :: "ASTNode list \<Rightarrow> analyzer \<Rightarrow> (error + unit) \<times> analyzer" where
  "where_clause_loop [] s = (Inr (), s)"
| "where_clause_loop (child # rest) s =
     (if ntype child = WHERE_CLAUSE then
        (case analyze_condition child s of
           (Inl e, s1) \<Rightarrow> (Inl e, s1)
         | (Inr condition_temp, s1) \<Rightarrow>
             where_clause_loop rest
               (if truthy condition_temp
                then emit (PStr ''WHERE'') (of_opt condition_temp) PNone PNone s1 else s1))
      else where_clause_loop rest s)"

definition analyze_where_clause :: "ASTNode \<Rightarrow> analyzer \<Rightarrow> (error + unit) \<times> analyzer" where
  "analyze_where_clause node s = where_clause_loop (children node) s"

fun having_clause_loop :: "ASTNode list \<Rightarrow> analyzer \<Rightarrow> (error + unit) \<times> analyzer" where
  "having_clause_loop [] s = (Inr (), s)"
| "having_clause_loop (child # rest) s =
     (if ntype child = HAVING_CLAUSE then
        (case analyze_condition child s of
           (Inl e, s1) \<Rightarrow> (Inl e, s1)
         | (Inr having_temp, s1) \<Rightarrow>
             having_clause_loop rest
               (if truthy having_temp
                then emit (PStr ''HAVING'') (of_opt having_temp) PNone PNone s1 else s1))
      else having_clause_loop rest s)"

definition analyze_having_clause :: "ASTNode \<Rightarrow> analyzer \<Rightarrow> (error + unit) \<times> analyzer" where
  "analyze_having_clause node s = having_clause_loop (children node) s"

subsection \<open>GROUP BY\<close>

record group_info =
  group_columns :: "string option list"
  has_group_by :: bool

fun group_by_inner_loop :: "ASTNode list \<Rightarrow> group_info \<Rightarrow> group_info" where
  "group_by_inner_loop [] gi = gi"
| "group_by_inner_loop (grandchild # rest) gi =
     (if ntype grandchild = IDENTIFIER
      then group_by_inner_loop rest (gi\<lparr>group_columns := group_columns gi @ [nvalue grandchild]\<rparr>)
      else group_by_inner_loop rest gi)"

fun group_by_loop :: "ASTNode list \<Rightarrow> group_info \<Rightarrow> analyzer \<Rightarrow> (error + group_info) \<times> analyzer" where
  "group_by_loop [] gi s = (Inr gi, s)"
| "group_by_loop (child # rest) gi s =
     (if ntype child = GROUP_BY_CLAUSE then
        let gi1 = group_by_inner_loop (children child) (gi\<lparr>has_group_by := True\<rparr>)
        in if group_columns gi1 \<noteq> [] then
             let (group_temp, s1) = generate_temp s
             in case py_join '','' (group_columns gi1) of
                  Inl e \<Rightarrow> (Inl e, s1)
                | Inr joined \<Rightarrow>
                    group_by_loop rest gi1 (emit (PStr ''GROUP_BY'') (PStr joined) PNone (PStr group_temp) s1)
           else group_by_loop rest gi1 s
      else group_by_loop rest gi s)"

definition analyze_group_by_clause :: "ASTNode \<Rightarrow> analyzer \<Rightarrow> (error + group_info) \<times> analyzer" where
  "analyze_group_by_clause node s =
     group_by_loop (children node) \<lparr>group_columns = [], has_group_by = False\<rparr> s"

subsection \<open>ORDER BY\<close>

fun order_direction_loop :: "ASTNode list \<Rightarrow> string \<Rightarrow> string" where
  "order_direction_loop [] direction = direction"
| "order_direction_loop (spec_child # rest) direction =
     (if ntype spec_child = IDENTIFIER
         \<and> (nvalue spec_child = Some ''ASC'' \<or> nvalue spec_child = Some ''DESC'')
      then order_direction_loop rest (the (nvalue spec_child))
      else order_direction_loop rest direction)"

fun order_specs_loop :: "ASTNode list \<Rightarrow> string list \<Rightarrow> string list" where
  "order_specs_loop [] order_specs = order_specs"
| "order_specs_loop (grandchild # rest) order_specs =
     (if ntype grandchild = ORDER_SPEC then
        let column_name = nvalue grandchild;
            direction = order_direction_loop (children grandchild) ''ASC''
        in order_specs_loop rest (order_specs @ [fmt column_name @ '' '' @ direction])
      else order_specs_loop rest order_specs)"

fun order_by_loop :: "ASTNode list \<Rightarrow> analyzer \<Rightarrow> analyzer" where
  "order_by_loop [] s = s"
| "order_by_loop (child # rest) s =
     (if ntype child = ORDER_BY_CLAUSE then
        let order_specs = order_specs_loop (children child) []
        in if order_specs \<noteq> [] then
             let (order_temp, s1) = generate_temp s
             in order_by_loop rest
                  (emit (PStr ''ORDER_BY'') (PStr (join_strs '','' order_specs)) PNone (PStr order_temp) s1)
           else order_by_loop rest s
      else order_by_loop rest s)"

definition analyze_order_by_clause :: "ASTNode \<Rightarrow> analyzer \<Rightarrow> analyzer" where
  "analyze_order_by_clause node s = order_by_loop (children node) s"

subsection \<open>The statement and the pass\<close>

definition analyze_select_statement :: "ASTNode \<Rightarrow> analyzer \<Rightarrow> (error + unit) \<times> analyzer" where
  "analyze_select_statement node s =
     (let s1 = emit (PStr ''BEGIN'') PNone PNone PNone s;
          (ti, s2) = analyze_from_clause node s1;
          (si, s3) = analyze_select_list node s2;
          (ti1, s4) = analyze_join_clauses node ti s3
      in case analyze_where_clause node s4 of
           (Inl e, s5) \<Rightarrow> (Inl e, s5)
         | (Inr _, s5) \<Rightarrow>
        (case analyze_group_by_clause node s5 of
           (Inl e, s6) \<Rightarrow> (Inl e, s6)
         | (Inr gi, s6) \<Rightarrow>
        (case analyze_having_clause node s6 of
           (Inl e, s7) \<Rightarrow> (Inl e, s7)
         | (Inr _, s7) \<Rightarrow>
             let s8 = analyze_order_by_clause node s7;
                 (result_temp, s9) = generate_temp s8;
                 s10 = emit (PStr ''SELECT'') (columns si) (of_opt (main_table ti1))
                         (PStr result_temp) s9;
                 s11 = emit (PStr ''OUTPUT'') (PStr result_temp) PNone PNone s10;
                 s12 = emit (PStr ''END'') PNone PNone PNone s11
             in (Inr (), s12))))"

text \<open>
  \<open>analyze\<close> returns a list of quadruples. Every exception of the pass is caught in
  \<open>analyze\<close>, which then prints it and returns the empty list; the model returns the
  printed exception beside the list (\<open>None\<close> when the pass completed), and the instance
  state the call leaves behind.
\<close>

definition analyze :: "ASTNode \<Rightarrow> analyzer \<Rightarrow> (Quadruple list \<times> error option) \<times> analyzer" where
  "analyze ast s0 =
     (let s = s0\<lparr>quadruples := [], temp_counter := 0, label_counter := 0\<rparr>
      in case (if ntype ast = SELECT_STMT then analyze_select_statement ast s
               else (Inl (SemanticError (''Unsupported statement type: '' @ type_str (ntype ast))), s)) of
           (Inr _, s1) \<Rightarrow> ((quadruples s1, None), s1)
         | (Inl e, s1) \<Rightarrow> (([], Some e), s1))"

section \<open>Auxiliary notions for the proofs\<close>

text \<open>
  The state in which \<open>analyze\<close> starts a pass: the buffer and both counters are set
  back, the symbol table is kept.
\<close>

definition reset :: "analyzer \<Rightarrow> analyzer" where
  "reset s = s\<lparr>quadruples := [], temp_counter := 0, label_counter := 0\<rparr>"

text \<open>
  \<open>grows s s'\<close>: from \<open>s\<close> to \<open>s'\<close> the buffer was only appended to, the label counter
  is unchanged, and the temporaries handed out in between are exactly those numbered
  from the counter of \<open>s\<close> (exclusive) to the counter of \<open>s'\<close> (inclusive).
\<close>

definition grows :: "analyzer \<Rightarrow> analyzer \<Rightarrow> bool" where
  "grows s s' \<longleftrightarrow>
     temp_counter s \<le> temp_counter s'
     \<and> issued s' = issued s @ map temp_name [Suc (temp_counter s)..<Suc (temp_counter s')]
     \<and> prefix (quadruples s) (quadruples s')
     \<and> label_counter s' = label_counter s"

text \<open>
  The fields of the instance that a pass reads: two states that agree on them are
  indistinguishable for every routine.
\<close>

definition same_core :: "analyzer \<Rightarrow> analyzer \<Rightarrow> bool" where
  "same_core s s' \<longleftrightarrow>
     quadruples s = quadruples s' \<and> temp_counter s = temp_counter s'
     \<and> label_counter s = label_counter s'"

text \<open>
  The part of \<open>_analyze_select_statement\<close> from WHERE on, given the results \<open>si\<close> and
  \<open>ti1\<close> of the select list and of the FROM and JOIN clauses.
\<close>

definition statement_tail ::
  "ASTNode \<Rightarrow> select_info \<Rightarrow> table_info \<Rightarrow> analyzer \<Rightarrow> (error + unit) \<times> analyzer" where
  "statement_tail node si ti1 s4 =
     (case analyze_where_clause node s4 of
        (Inl e, s5) \<Rightarrow> (Inl e, s5)
      | (Inr _, s5) \<Rightarrow>
     (case analyze_group_by_clause node s5 of
        (Inl e, s6) \<Rightarrow> (Inl e, s6)
      | (Inr gi, s6) \<Rightarrow>
     (case analyze_having_clause node s6 of
        (Inl e, s7) \<Rightarrow> (Inl e, s7)
      | (Inr _, s7) \<Rightarrow>
          let s8 = analyze_order_by_clause node s7;
              (result_temp, s9) = generate_temp s8;
              s10 = emit (PStr ''SELECT'') (columns si) (of_opt (main_table ti1))
                      (PStr result_temp) s9;
              s11 = emit (PStr ''OUTPUT'') (PStr result_temp) PNone PNone s10;
              s12 = emit (PStr ''END'') PNone PNone PNone s11
          in (Inr (), s12))))"

text \<open>
  The children of the column list that \<open>_analyze_select_list\<close> hands to
  \<open>_analyze_column_list\<close>: those of the first \<open>COLUMN_LIST\<close> child, none if there is no
  such child.
\<close>

definition select_columns :: "ASTNode \<Rightarrow> ASTNode list" where
  "select_columns node =
     (case filter (\<lambda>c. ntype c = COLUMN_LIST) (children node) of
        [] \<Rightarrow> []
      | c # _ \<Rightarrow> children c)"

text \<open>The children of a column list that are aggregate functions, and those that are the wildcard.\<close>

definition is_agg :: "ASTNode \<Rightarrow> bool" where
  "is_agg c \<longleftrightarrow> ntype c = AGGREGATE_FUNCTION"

definition is_wildcard :: "ASTNode \<Rightarrow> bool" where
  "is_wildcard c \<longleftrightarrow> ntype c = IDENTIFIER \<and> nvalue c = Some ''*''"

text \<open>
  What the loop of \<open>_analyze_join_clause\<close> leaves in \<open>join_table\<close> for a
  \<open>JOIN_CLAUSE\<close> node, read off the node: the value of its last \<open>TABLE_NAME\<close> child
  (\<open>None\<close> without such a child); and whether the node has an \<open>ON_CLAUSE\<close> child.
\<close>

definition join_table_of :: "ASTNode \<Rightarrow> string option" where
  "join_table_of node =
     (let ts = filter (\<lambda>c. ntype c = TABLE_NAME) (children node)
      in if ts = [] then None else nvalue (last ts))"

definition has_on_clause :: "ASTNode \<Rightarrow> bool" where
  "has_on_clause node \<longleftrightarrow> filter (\<lambda>c. ntype c = ON_CLAUSE) (children node) \<noteq> []"

text \<open>
  The result fields of a buffer that hold a temporary. \<open>_emit\<close> is called with the
  result \<open>None\<close> (\<open>BEGIN\<close>, \<open>WHERE\<close>, \<open>HAVING\<close>, \<open>OUTPUT\<close>, \<open>END\<close>), with the
  operator tag \<open>EQ\<close> of the join condition (\<open>ON\<close>), or with a name that
  \<open>_generate_temp\<close> has returned; no such name is \<open>EQ\<close>, since each starts with \<open>T\<close>.
\<close>

definition result_temps :: "Quadruple list \<Rightarrow> pyval list" where
  "result_temps qs = filter (\<lambda>r. r \<noteq> PNone \<and> r \<noteq> PStr ''EQ'') (map result qs)"

text \<open>
  \<open>tight s s'\<close>: the temporaries in result position that the buffer gained from \<open>s\<close> to
  \<open>s'\<close> are, in order, exactly those numbered from the counter of \<open>s\<close> (exclusive) to
  the counter of \<open>s'\<close> (inclusive). \<open>loose s s'\<close>: the same, except that the last
  temporary taken may not have reached the buffer (the routine that took it raised).
\<close>

definition tight :: "analyzer \<Rightarrow> analyzer \<Rightarrow> bool" where
  "tight s s' \<longleftrightarrow>
     temp_counter s \<le> temp_counter s'
     \<and> result_temps (quadruples s')
         = result_temps (quadruples s)
           @ map (\<lambda>n. PStr (temp_name n)) [Suc (temp_counter s)..<Suc (temp_counter s')]"

definition loose :: "analyzer \<Rightarrow> analyzer \<Rightarrow> bool" where
  "loose s s' \<longleftrightarrow> tight s s' \<or> (\<exists>sa. tight s sa \<and> s' = snd (generate_temp sa))"

subsection \<open>Sample trees\<close>

text \<open>
  The trees of some queries, as concrete inputs: \<open>SELECT name FROM students\<close> and
  \<open>SELECT COUNT( * ), AVG(grade) FROM students\<close> are the first two test cases of the
  source file; the others add a WHERE clause, a GROUP BY with HAVING, a JOIN, and leave
  out the FROM clause.
\<close>

definition query_name :: ASTNode where
  "query_name = ASTNode SELECT_STMT None
     [ASTNode COLUMN_LIST None [ASTNode IDENTIFIER (Some ''name'') []],
      ASTNode TABLE_NAME (Some ''students'') []]"

definition query_where :: ASTNode where
  "query_where = ASTNode SELECT_STMT None
     [ASTNode COLUMN_LIST None [ASTNode IDENTIFIER (Some ''name'') []],
      ASTNode TABLE_NAME (Some ''students'') [],
      ASTNode WHERE_CLAUSE None
        [ASTNode CONDITION (Some ''>'')
           [ASTNode IDENTIFIER (Some ''age'') [], ASTNode LITERAL (Some ''18'') []]]]"

definition query_having :: ASTNode where
  "query_having = ASTNode SELECT_STMT None
     [ASTNode COLUMN_LIST None
        [ASTNode IDENTIFIER (Some ''major'') [], ASTNode AGGREGATE_FUNCTION (Some ''COUNT'') []],
      ASTNode TABLE_NAME (Some ''students'') [],
      ASTNode GROUP_BY_CLAUSE None [ASTNode IDENTIFIER (Some ''major'') []],
      ASTNode HAVING_CLAUSE None
        [ASTNode CONDITION (Some ''>'')
           [ASTNode AGGREGATE_FUNCTION (Some ''COUNT'') [], ASTNode LITERAL (Some ''5'') []]]]"

definition query_no_from :: ASTNode where
  "query_no_from = ASTNode SELECT_STMT None
     [ASTNode COLUMN_LIST None [ASTNode IDENTIFIER (Some ''major'') []],
      ASTNode GROUP_BY_CLAUSE None [ASTNode IDENTIFIER (Some ''major'') []]]"

definition query_aggregates :: ASTNode where
  "query_aggregates = ASTNode SELECT_STMT None
     [ASTNode COLUMN_LIST None
        [ASTNode AGGREGATE_FUNCTION (Some ''COUNT'') [ASTNode IDENTIFIER (Some ''*'') []],
         ASTNode AGGREGATE_FUNCTION (Some ''AVG'') [ASTNode IDENTIFIER (Some ''grade'') []]],
      ASTNode TABLE_NAME (Some ''students'') []]"

definition query_join :: ASTNode where
  "query_join = ASTNode SELECT_STMT None
     [ASTNode COLUMN_LIST None [ASTNode IDENTIFIER (Some ''name'') []],
      ASTNode TABLE_NAME (Some ''students'') [],
      ASTNode JOIN_CLAUSE None
        [ASTNode JOIN_TYPE (Some ''INNER'') [],
         ASTNode TABLE_NAME (Some ''courses'') [],
         ASTNode ON_CLAUSE None [ASTNode CONDITION (Some ''='') []]]]"

section \<open>Basic facts: every routine only appends\<close>

lemma quadruples_emit [simp]:
  "quadruples (emit opr a1 a2 res s) = quadruples s @ [\<lparr>op = opr, arg1 = a1, arg2 = a2, result = res\<rparr>]"
  by (simp add: emit_def)

lemma emit_others [simp]:
  "temp_counter (emit opr a1 a2 res s) = temp_counter s"
  "label_counter (emit opr a1 a2 res s) = label_counter s"
  "issued (emit opr a1 a2 res s) = issued s"
  "symbol_table (emit opr a1 a2 res s) = symbol_table s"
  by (simp_all add: emit_def)

lemma generate_temp_eq:
  "generate_temp s =
     (temp_name (Suc (temp_counter s)),
      s\<lparr>temp_counter := Suc (temp_counter s),
        issued := issued s @ [temp_name (Suc (temp_counter s))]\<rparr>)"
  by (simp add: generate_temp_def Let_def)

lemma grows_refl [simp]: "grows s s"
  by (simp add: grows_def)

lemma upt_split: "i \<le> j \<Longrightarrow> j \<le> k \<Longrightarrow> [i..<j] @ [j..<k] = [i..<k]"
  by (metis le_Suc_ex upt_add_eq_append)

lemma grows_trans:
  assumes "grows s s1" and "grows s1 s2"
  shows "grows s s2"
proof -
  have le: "temp_counter s \<le> temp_counter s1" "temp_counter s1 \<le> temp_counter s2"
    using assms by (simp_all add: grows_def)
  have "issued s2 = issued s @ map temp_name ([Suc (temp_counter s)..<Suc (temp_counter s1)]
                      @ [Suc (temp_counter s1)..<Suc (temp_counter s2)])"
    using assms by (simp add: grows_def del: upt_Suc)
  also have "[Suc (temp_counter s)..<Suc (temp_counter s1)]
               @ [Suc (temp_counter s1)..<Suc (temp_counter s2)]
             = [Suc (temp_counter s)..<Suc (temp_counter s2)]"
    using le by (intro upt_split) simp_all
  finally have "issued s2 = issued s @ map temp_name [Suc (temp_counter s)..<Suc (temp_counter s2)]" .
  moreover have "prefix (quadruples s) (quadruples s2)"
    using assms by (auto simp: grows_def intro: prefix_order.order_trans)
  ultimately show ?thesis
    using assms le by (simp add: grows_def del: upt_Suc)
qed

lemma grows_emit [simp]: "grows s (emit opr a1 a2 res s)"
  by (simp add: grows_def)

lemma grows_emit_after: "grows s s1 \<Longrightarrow> grows s (emit opr a1 a2 res s1)"
  by (rule grows_trans [OF _ grows_emit])

lemma grows_generate_temp [simp]: "grows s (snd (generate_temp s))"
  by (simp add: grows_def generate_temp_eq)

lemma grows_emit_generate_temp [simp]: "grows s (emit opr a1 a2 res (snd (generate_temp s)))"
  by (simp add: grows_def generate_temp_eq)

lemma grows_column_list_body: "grows s (snd (column_list_body c si s))"
  by (simp add: column_list_body_def Let_def generate_temp_eq grows_def)

lemma grows_column_list_loop: "grows s (snd (column_list_loop cs si s))"
proof (induction cs arbitrary: si s)
  case Nil
  then show ?case by simp
next
  case (Cons c cs)
  from grows_trans [OF grows_column_list_body Cons.IH] show ?case
    by (simp add: case_prod_unfold)
qed

lemma grows_select_list_loop: "grows s (snd (select_list_loop cs si s))"
  by (induction cs arbitrary: si s) (simp_all add: analyze_column_list_def grows_column_list_loop)

lemma grows_analyze_join_clause: "grows s (snd (analyze_join_clause c ti s))"
  by (simp add: analyze_join_clause_def generate_temp_eq grows_def
           split: prod.splits option.splits)

lemma grows_join_clauses_loop: "grows s (snd (join_clauses_loop cs ti s))"
proof (induction cs arbitrary: ti s)
  case Nil
  then show ?case by simp
next
  case (Cons c cs)
  from grows_trans [OF grows_analyze_join_clause Cons.IH] Cons.IH show ?case
    by (simp add: case_prod_unfold)
qed

lemma analyze_condition_eq:
  "analyze_condition node s = (Inl TypeError, snd (generate_temp s))"
  by (simp add: analyze_condition_def generate_temp_eq emit_call_def)

lemma grows_where_clause_loop: "grows s (snd (where_clause_loop cs s))"
  by (induction cs arbitrary: s) (simp_all add: analyze_condition_eq)

lemma grows_having_clause_loop: "grows s (snd (having_clause_loop cs s))"
  by (induction cs arbitrary: s) (simp_all add: analyze_condition_eq)

lemma grows_group_by_loop: "grows s (snd (group_by_loop cs gi s))"
proof (induction cs arbitrary: gi s)
  case Nil
  then show ?case by simp
next
  case (Cons c cs)
  from grows_trans [OF grows_emit_generate_temp Cons.IH] Cons.IH show ?case
    by (simp add: Let_def case_prod_unfold split: sum.splits)
qed

lemma grows_order_by_loop: "grows s (order_by_loop cs s)"
proof (induction cs arbitrary: s)
  case Nil
  then show ?case by simp
next
  case (Cons c cs)
  from grows_trans [OF grows_emit_generate_temp Cons.IH] Cons.IH show ?case
    by (simp add: Let_def case_prod_unfold)
qed

lemma from_clause_body_state [simp]:
  "quadruples (snd (from_clause_body c ti s)) = quadruples s"
  "temp_counter (snd (from_clause_body c ti s)) = temp_counter s"
  "label_counter (snd (from_clause_body c ti s)) = label_counter s"
  "issued (snd (from_clause_body c ti s)) = issued s"
  by (simp_all add: from_clause_body_def Let_def)

lemma from_clause_loop_state [simp]:
  "quadruples (snd (from_clause_loop cs ti s)) = quadruples s"
  "temp_counter (snd (from_clause_loop cs ti s)) = temp_counter s"
  "label_counter (snd (from_clause_loop cs ti s)) = label_counter s"
  "issued (snd (from_clause_loop cs ti s)) = issued s"
  by (induction cs arbitrary: ti s) (simp_all add: case_prod_unfold)

lemma grows_from_clause_loop: "grows s (snd (from_clause_loop cs ti s))"
  by (simp add: grows_def)

lemma from_clause_loop_none:
  "\<forall>c\<in>set cs. ntype c \<noteq> TABLE_NAME \<Longrightarrow> from_clause_loop cs ti s = (ti, s)"
  by (induction cs) (simp_all add: from_clause_body_def)

lemma where_clause_loop_eq:
  "where_clause_loop cs s =
     (if \<exists>c\<in>set cs. ntype c = WHERE_CLAUSE then (Inl TypeError, snd (generate_temp s))
      else (Inr (), s))"
  by (induction cs) (simp_all add: analyze_condition_eq)

lemma having_clause_loop_eq:
  "having_clause_loop cs s =
     (if \<exists>c\<in>set cs. ntype c = HAVING_CLAUSE then (Inl TypeError, snd (generate_temp s))
      else (Inr (), s))"
  by (induction cs) (simp_all add: analyze_condition_eq)

lemma symbols_generate_temp [simp]: "symbol_table (snd (generate_temp s)) = symbol_table s"
  by (simp add: generate_temp_eq)

lemma symbols_column_list_loop: "symbol_table (snd (column_list_loop cs si s)) = symbol_table s"
  by (induction cs arbitrary: si s)
     (simp_all add: case_prod_unfold column_list_body_def Let_def)

lemma symbols_select_list_loop: "symbol_table (snd (select_list_loop cs si s)) = symbol_table s"
  by (induction cs arbitrary: si s) (simp_all add: analyze_column_list_def symbols_column_list_loop)

lemma symbols_analyze_join_clause: "symbol_table (snd (analyze_join_clause c ti s)) = symbol_table s"
  by (simp add: analyze_join_clause_def case_prod_unfold Let_def split: option.splits)

lemma symbols_join_clauses_loop: "symbol_table (snd (join_clauses_loop cs ti s)) = symbol_table s"
  by (induction cs arbitrary: ti s) (simp_all add: case_prod_unfold symbols_analyze_join_clause)

lemma symbols_group_by_loop: "symbol_table (snd (group_by_loop cs gi s)) = symbol_table s"
  by (induction cs arbitrary: gi s) (simp_all add: Let_def case_prod_unfold split: sum.splits)

lemma symbols_order_by_loop: "symbol_table (order_by_loop cs s) = symbol_table s"
  by (induction cs arbitrary: s) (simp_all add: Let_def case_prod_unfold)

lemma digit_char_inj:
  assumes "a < 10" and "b < 10" and "digit_char a = digit_char b"
  shows "a = b"
proof -
  have "distinct ''0123456789''" by simp
  moreover have "a < length ''0123456789''" "b < length ''0123456789''"
    using assms by simp_all
  ultimately show ?thesis
    using assms(3) unfolding digit_char_def by (simp only: nth_eq_iff_index_eq)
qed

lemma str_of_nat_small: "n < 10 \<Longrightarrow> str_of_nat n = [digit_char n]"
  by (subst str_of_nat.simps) simp

lemma str_of_nat_big:
  "\<not> n < 10 \<Longrightarrow> str_of_nat n = str_of_nat (n div 10) @ [digit_char (n mod 10)]"
  by (subst str_of_nat.simps) simp

lemma str_of_nat_nonempty: "str_of_nat n \<noteq> []"
  by (cases "n < 10") (simp_all add: str_of_nat_small str_of_nat_big)

lemma str_of_nat_inj: "str_of_nat m = str_of_nat n \<Longrightarrow> m = n"
proof (induction m arbitrary: n rule: str_of_nat.induct)
  case (1 m)
  show ?case
  proof (cases "m < 10")
    case True
    have n: "n < 10"
    proof (rule ccontr)
      assume "\<not> n < 10"
      then show False
        using "1.prems" True str_of_nat_nonempty [of "n div 10"]
        by (simp add: str_of_nat_small str_of_nat_big)
    qed
    then show ?thesis
      using "1.prems" True by (simp add: str_of_nat_small digit_char_inj)
  next
    case False
    have n: "\<not> n < 10"
    proof
      assume "n < 10"
      then show False
        using "1.prems" False str_of_nat_nonempty [of "m div 10"]
        by (simp add: str_of_nat_small str_of_nat_big)
    qed
    from "1.prems" False n
    have eq: "str_of_nat (m div 10) = str_of_nat (n div 10)"
      and d: "digit_char (m mod 10) = digit_char (n mod 10)"
      by (simp_all add: str_of_nat_big)
    have "m div 10 = n div 10" using "1.IH" [OF False eq] .
    moreover have "m mod 10 = n mod 10"
      by (rule digit_char_inj [OF _ _ d]) simp_all
    ultimately show ?thesis
      by (metis div_mult_mod_eq)
  qed
qed

lemma temp_name_inj: "inj temp_name"
  by (rule injI) (simp add: temp_name_def str_of_nat_inj)

lemma distinct_temp_names: "distinct (map temp_name [i..<j])"
  by (simp add: distinct_map inj_on_subset [OF temp_name_inj])

section \<open>The pass as a whole: growth of buffer and counter\<close>

lemma analyze_select_statement_tail:
  "analyze_select_statement node s =
     (let ti_s2 = analyze_from_clause node (emit (PStr ''BEGIN'') PNone PNone PNone s);
          si_s3 = analyze_select_list node (snd ti_s2);
          ti_s4 = analyze_join_clauses node (fst ti_s2) (snd si_s3)
      in statement_tail node (fst si_s3) (fst ti_s4) (snd ti_s4))"
  by (simp add: analyze_select_statement_def statement_tail_def Let_def case_prod_unfold)

lemma grows_statement_tail: "grows s (snd (statement_tail node si ti s))"
proof -
  obtain r5 s5 where e5: "analyze_where_clause node s = (r5, s5)" by fastforce
  have "grows s (snd (analyze_where_clause node s))"
    unfolding analyze_where_clause_def by (rule grows_where_clause_loop)
  then have g5: "grows s s5" by (simp add: e5)
  obtain r6 s6 where e6: "analyze_group_by_clause node s5 = (r6, s6)" by fastforce
  have "grows s5 (snd (analyze_group_by_clause node s5))"
    unfolding analyze_group_by_clause_def by (rule grows_group_by_loop)
  then have g6: "grows s s6" using g5 by (auto simp: e6 intro: grows_trans)
  obtain r7 s7 where e7: "analyze_having_clause node s6 = (r7, s7)" by fastforce
  have "grows s6 (snd (analyze_having_clause node s6))"
    unfolding analyze_having_clause_def by (rule grows_having_clause_loop)
  then have g7: "grows s s7" using g6 by (auto simp: e7 intro: grows_trans)
  have "grows s7 (analyze_order_by_clause node s7)"
    unfolding analyze_order_by_clause_def by (rule grows_order_by_loop)
  then have g8: "grows s (analyze_order_by_clause node s7)"
    using g7 by (auto intro: grows_trans)
  have g9: "grows s (emit a1 b1 c1 d1 (emit a2 b2 c2 d2 (emit a3 b3 c3 d3
              (snd (generate_temp (analyze_order_by_clause node s7))))))" for a1 b1 c1 d1 a2 b2 c2 d2 a3 b3 c3 d3
    by (intro grows_emit_after grows_trans [OF g8 grows_generate_temp])
  show ?thesis
    using g5 g6 g7 g9
    by (simp add: statement_tail_def e5 e6 e7 Let_def case_prod_unfold split: sum.splits)
qed

lemma grows_before_where:
  "grows s (snd (analyze_join_clauses node ti
              (snd (analyze_select_list node (snd (analyze_from_clause node s))))))"
proof -
  have "grows s (snd (analyze_from_clause node s))"
    unfolding analyze_from_clause_def by (rule grows_from_clause_loop)
  moreover have "grows (snd (analyze_from_clause node s))
                   (snd (analyze_select_list node (snd (analyze_from_clause node s))))"
    unfolding analyze_select_list_def by (rule grows_select_list_loop)
  moreover have "grows (snd (analyze_select_list node (snd (analyze_from_clause node s))))
     (snd (analyze_join_clauses node ti
              (snd (analyze_select_list node (snd (analyze_from_clause node s))))))"
    unfolding analyze_join_clauses_def by (rule grows_join_clauses_loop)
  ultimately show ?thesis by (blast intro: grows_trans)
qed

lemma grows_analyze_select_statement:
  "grows (emit (PStr ''BEGIN'') PNone PNone PNone s) (snd (analyze_select_statement node s))"
  unfolding analyze_select_statement_tail Let_def
  by (rule grows_trans [OF grows_before_where grows_statement_tail])

lemma analyze_unfold:
  "analyze ast s =
     (if ntype ast = SELECT_STMT then
        (case analyze_select_statement ast (reset s) of
           (Inr _, s1) \<Rightarrow> ((quadruples s1, None), s1)
         | (Inl e, s1) \<Rightarrow> (([], Some e), s1))
      else (([], Some (SemanticError (''Unsupported statement type: '' @ type_str (ntype ast)))),
            reset s))"
  by (simp add: analyze_def reset_def)

lemma snd_analyze:
  "snd (analyze ast s) =
     (if ntype ast = SELECT_STMT then snd (analyze_select_statement ast (reset s)) else reset s)"
  by (simp add: analyze_unfold split: prod.splits sum.splits)

lemma grows_analyze:
  "grows (reset s) (snd (analyze ast s))"
proof (cases "ntype ast = SELECT_STMT")
  case True
  have "grows (reset s) (emit (PStr ''BEGIN'') PNone PNone PNone (reset s))" by simp
  from grows_trans [OF this grows_analyze_select_statement] True show ?thesis
    by (simp add: snd_analyze)
next
  case False
  then show ?thesis by (simp add: snd_analyze)
qed

lemma issued_analyze:
  "issued (snd (analyze ast s))
     = issued s @ map temp_name [1..<Suc (temp_counter (snd (analyze ast s)))]"
  using grows_analyze [of s ast] by (simp add: grows_def reset_def del: upt_Suc)

section \<open>Completed and abandoned passes\<close>

lemma statement_tail_where:
  "\<exists>c\<in>set (children node). ntype c = WHERE_CLAUSE \<Longrightarrow>
     statement_tail node si ti s = (Inl TypeError, snd (generate_temp s))"
  by (simp add: statement_tail_def analyze_where_clause_def where_clause_loop_eq)

lemma statement_tail_having:
  "\<exists>c\<in>set (children node). ntype c = HAVING_CLAUSE \<Longrightarrow>
     \<exists>e. fst (statement_tail node si ti s) = Inl e"
  by (simp add: statement_tail_def analyze_having_clause_def having_clause_loop_eq
           split: prod.splits sum.splits)

lemma statement_tail_ok:
  assumes "statement_tail node si ti s = (Inr u, s')"
  shows "\<exists>s8. grows s s8 \<and> symbol_table s8 = symbol_table s
           \<and> s' = emit (PStr ''END'') PNone PNone PNone
                    (emit (PStr ''OUTPUT'') (PStr (temp_name (Suc (temp_counter s8)))) PNone PNone
                      (emit (PStr ''SELECT'') (columns si) (of_opt (main_table ti))
                         (PStr (temp_name (Suc (temp_counter s8)))) (snd (generate_temp s8))))"
proof -
  have nw: "\<not> (\<exists>c\<in>set (children node). ntype c = WHERE_CLAUSE)"
    using assms statement_tail_where [of node si ti s] by auto
  have nh: "\<not> (\<exists>c\<in>set (children node). ntype c = HAVING_CLAUSE)"
    using assms statement_tail_having [of node si ti s] by auto
  obtain r6 s6 where e6: "analyze_group_by_clause node s = (r6, s6)" by fastforce
  let ?s8 = "analyze_order_by_clause node s6"
  have s': "s' = emit (PStr ''END'') PNone PNone PNone
                    (emit (PStr ''OUTPUT'') (PStr (temp_name (Suc (temp_counter ?s8)))) PNone PNone
                      (emit (PStr ''SELECT'') (columns si) (of_opt (main_table ti))
                         (PStr (temp_name (Suc (temp_counter ?s8)))) (snd (generate_temp ?s8))))"
    using assms nw nh e6
    by (auto simp: statement_tail_def analyze_where_clause_def where_clause_loop_eq
                   analyze_having_clause_def having_clause_loop_eq Let_def generate_temp_eq
             split: sum.splits)
  have "grows s (snd (analyze_group_by_clause node s))"
    unfolding analyze_group_by_clause_def by (rule grows_group_by_loop)
  then have g6: "grows s s6" by (simp add: e6)
  have "grows s6 ?s8"
    unfolding analyze_order_by_clause_def by (rule grows_order_by_loop)
  with g6 have g8: "grows s ?s8" by (rule grows_trans)
  have "symbol_table (snd (analyze_group_by_clause node s)) = symbol_table s"
    unfolding analyze_group_by_clause_def by (rule symbols_group_by_loop)
  then have "symbol_table ?s8 = symbol_table s"
    by (simp add: e6 analyze_order_by_clause_def symbols_order_by_loop)
  with g8 s' show ?thesis by blast
qed

lemma select_list_loop_columns:
  "select_list_loop cs si s =
     column_list_loop (case filter (\<lambda>c. ntype c = COLUMN_LIST) cs of [] \<Rightarrow> [] | c # _ \<Rightarrow> children c) si s"
  by (induction cs) (simp_all add: analyze_column_list_def)

lemma analyze_select_list_columns:
  "analyze_select_list node s =
     column_list_loop (select_columns node)
       \<lparr>columns = PList [], aggregates = [], has_aggregates = False\<rparr> s"
  by (simp add: analyze_select_list_def select_list_loop_columns select_columns_def)

lemma main_table_join_clause_loop:
  "main_table (snd (snd (join_clause_loop cs v))) = main_table (snd (snd v))"
  by (induction cs arbitrary: v) (simp_all add: join_clause_body_def case_prod_unfold)

lemma main_table_analyze_join_clause:
  "main_table (fst (analyze_join_clause c ti s)) = main_table ti"
  using main_table_join_clause_loop [of "children c" "(None, None, ti)"]
  by (simp add: analyze_join_clause_def case_prod_unfold Let_def split: option.splits)

lemma main_table_join_clauses_loop:
  "main_table (fst (join_clauses_loop cs ti s)) = main_table ti"
  by (induction cs arbitrary: ti s)
     (simp_all add: case_prod_unfold main_table_analyze_join_clause)

lemma analyze_error_empty:
  "snd (fst (analyze ast s)) \<noteq> None \<Longrightarrow> fst (fst (analyze ast s)) = []"
  by (auto simp: analyze_unfold split: prod.splits sum.splits if_splits)

lemma analyze_ok_shape:
  assumes "snd (fst (analyze ast s)) = None"
  shows "ntype ast = SELECT_STMT
     \<and> quadruples (snd (analyze ast s)) = fst (fst (analyze ast s))
     \<and> (\<exists>mid t. fst (fst (analyze ast s)) =
          \<lparr>op = PStr ''BEGIN'', arg1 = PNone, arg2 = PNone, result = PNone\<rparr> # mid @
          [\<lparr>op = PStr ''SELECT'',
            arg1 = columns (fst (analyze_select_list ast
                     (snd (analyze_from_clause ast (emit (PStr ''BEGIN'') PNone PNone PNone (reset s)))))),
            arg2 = of_opt (main_table (fst (analyze_from_clause ast
                     (emit (PStr ''BEGIN'') PNone PNone PNone (reset s))))),
            result = PStr t\<rparr>,
           \<lparr>op = PStr ''OUTPUT'', arg1 = PStr t, arg2 = PNone, result = PNone\<rparr>,
           \<lparr>op = PStr ''END'', arg1 = PNone, arg2 = PNone, result = PNone\<rparr>])"
proof -
  let ?b = "emit (PStr ''BEGIN'') PNone PNone PNone (reset s)"
  let ?f = "analyze_from_clause ast ?b"
  let ?l = "analyze_select_list ast (snd ?f)"
  let ?j = "analyze_join_clauses ast (fst ?f) (snd ?l)"
  from assms have sel: "ntype ast = SELECT_STMT"
    by (auto simp: analyze_unfold split: if_splits)
  obtain r s' where e: "analyze_select_statement ast (reset s) = (r, s')" by fastforce
  with assms sel obtain u where r: "r = Inr u"
    by (cases r) (auto simp: analyze_unfold)
  have res: "fst (fst (analyze ast s)) = quadruples s'" "snd (analyze ast s) = s'"
    using sel e r by (simp_all add: analyze_unfold)
  have t: "statement_tail ast (fst ?l) (fst ?j) (snd ?j) = (Inr u, s')"
    using e r by (simp add: analyze_select_statement_tail Let_def)
  from statement_tail_ok [OF t] obtain s8 where
    g: "grows (snd ?j) s8" and
    s': "s' = emit (PStr ''END'') PNone PNone PNone
                    (emit (PStr ''OUTPUT'') (PStr (temp_name (Suc (temp_counter s8)))) PNone PNone
                      (emit (PStr ''SELECT'') (columns (fst ?l)) (of_opt (main_table (fst ?j)))
                         (PStr (temp_name (Suc (temp_counter s8)))) (snd (generate_temp s8))))"
    by blast
  have "grows ?b s8"
    by (rule grows_trans [OF grows_before_where g])
  then have "prefix (quadruples ?b) (quadruples s8)"
    by (simp add: grows_def)
  then obtain mid where mid: "quadruples s8 =
      \<lparr>op = PStr ''BEGIN'', arg1 = PNone, arg2 = PNone, result = PNone\<rparr> # mid"
    by (auto simp: prefix_def reset_def)
  have mt: "main_table (fst ?j) = main_table (fst ?f)"
    by (simp add: analyze_join_clauses_def main_table_join_clauses_loop)
  show ?thesis
    using sel res mid by (auto simp: s' mt generate_temp_eq)
qed

section \<open>Independence of the instance state\<close>

lemma core_emit: "same_core s s' \<Longrightarrow> same_core (emit opr a1 a2 res s) (emit opr a1 a2 res s')"
  by (simp add: same_core_def)

lemma core_generate_temp:
  "same_core s s' \<Longrightarrow>
     fst (generate_temp s) = fst (generate_temp s')
     \<and> same_core (snd (generate_temp s)) (snd (generate_temp s'))"
  by (simp add: same_core_def generate_temp_eq)

lemma core_from_clause_loop:
  "fst (from_clause_loop cs ti s) = fst (from_clause_loop cs ti s')"
  by (induction cs arbitrary: ti s s')
     (simp_all add: case_prod_unfold from_clause_body_def Let_def)

lemma core_from_clause_state:
  "same_core s s' \<Longrightarrow> same_core (snd (from_clause_loop cs ti s)) (snd (from_clause_loop cs ti s'))"
  by (simp add: same_core_def)

lemma core_column_list_body:
  "same_core s s' \<Longrightarrow>
     fst (column_list_body c si s) = fst (column_list_body c si s')
     \<and> same_core (snd (column_list_body c si s)) (snd (column_list_body c si s'))"
  by (simp add: column_list_body_def Let_def generate_temp_eq same_core_def)

lemma core_column_list_loop:
  "same_core s s' \<Longrightarrow>
     fst (column_list_loop cs si s) = fst (column_list_loop cs si s')
     \<and> same_core (snd (column_list_loop cs si s)) (snd (column_list_loop cs si s'))"
proof (induction cs arbitrary: si s s')
  case Nil
  then show ?case by simp
next
  case (Cons c cs)
  from core_column_list_body [OF Cons.prems, of c si]
  have "fst (column_list_body c si s) = fst (column_list_body c si s')"
    and "same_core (snd (column_list_body c si s)) (snd (column_list_body c si s'))"
    by simp_all
  with Cons.IH [of "snd (column_list_body c si s)" "snd (column_list_body c si s')"
                   "fst (column_list_body c si s')"]
  show ?case by (simp add: case_prod_unfold)
qed

lemma core_analyze_join_clause:
  "same_core s s' \<Longrightarrow>
     fst (analyze_join_clause c ti s) = fst (analyze_join_clause c ti s')
     \<and> same_core (snd (analyze_join_clause c ti s)) (snd (analyze_join_clause c ti s'))"
  by (simp add: analyze_join_clause_def Let_def generate_temp_eq same_core_def case_prod_unfold
           split: option.splits)

lemma core_join_clauses_loop:
  "same_core s s' \<Longrightarrow>
     fst (join_clauses_loop cs ti s) = fst (join_clauses_loop cs ti s')
     \<and> same_core (snd (join_clauses_loop cs ti s)) (snd (join_clauses_loop cs ti s'))"
proof (induction cs arbitrary: ti s s')
  case Nil
  then show ?case by simp
next
  case (Cons c cs)
  from core_analyze_join_clause [OF Cons.prems, of c ti]
  have "fst (analyze_join_clause c ti s) = fst (analyze_join_clause c ti s')"
    and "same_core (snd (analyze_join_clause c ti s)) (snd (analyze_join_clause c ti s'))"
    by simp_all
  with Cons.IH [of "snd (analyze_join_clause c ti s)" "snd (analyze_join_clause c ti s')"
                   "fst (analyze_join_clause c ti s')"]
       Cons.IH [OF Cons.prems, of ti]
  show ?case by (simp add: case_prod_unfold)
qed

lemma core_where_clause_loop:
  "same_core s s' \<Longrightarrow>
     fst (where_clause_loop cs s) = fst (where_clause_loop cs s')
     \<and> same_core (snd (where_clause_loop cs s)) (snd (where_clause_loop cs s'))"
  by (simp add: where_clause_loop_eq core_generate_temp)

lemma core_having_clause_loop:
  "same_core s s' \<Longrightarrow>
     fst (having_clause_loop cs s) = fst (having_clause_loop cs s')
     \<and> same_core (snd (having_clause_loop cs s)) (snd (having_clause_loop cs s'))"
  by (simp add: having_clause_loop_eq core_generate_temp)

lemma core_group_by_loop:
  "same_core s s' \<Longrightarrow>
     fst (group_by_loop cs gi s) = fst (group_by_loop cs gi s')
     \<and> same_core (snd (group_by_loop cs gi s)) (snd (group_by_loop cs gi s'))"
proof (induction cs arbitrary: gi s s')
  case Nil
  then show ?case by simp
next
  case (Cons c cs)
  have t: "fst (generate_temp s) = fst (generate_temp s')"
    and c: "same_core (emit opr a1 a2 res (snd (generate_temp s)))
                      (emit opr a1 a2 res (snd (generate_temp s')))" for opr a1 a2 res
    using core_generate_temp [OF Cons.prems] by (simp_all add: core_emit)
  have g: "same_core (snd (generate_temp s)) (snd (generate_temp s'))"
    using core_generate_temp [OF Cons.prems] by simp
  show ?case
    using Cons.IH [OF Cons.prems] Cons.IH [OF c] g
    by (simp add: Let_def case_prod_unfold t split: sum.splits)
qed

lemma core_order_by_loop:
  "same_core s s' \<Longrightarrow> same_core (order_by_loop cs s) (order_by_loop cs s')"
proof (induction cs arbitrary: s s')
  case Nil
  then show ?case by simp
next
  case (Cons c cs)
  have t: "fst (generate_temp s) = fst (generate_temp s')"
    and c: "same_core (emit opr a1 a2 res (snd (generate_temp s)))
                      (emit opr a1 a2 res (snd (generate_temp s')))" for opr a1 a2 res
    using core_generate_temp [OF Cons.prems] by (simp_all add: core_emit)
  show ?case
    using Cons.IH [OF Cons.prems] Cons.IH [OF c]
    by (simp add: Let_def case_prod_unfold t)
qed

lemma core_statement_tail:
  assumes "same_core s s'"
  shows "fst (statement_tail node si ti s) = fst (statement_tail node si ti s')
         \<and> same_core (snd (statement_tail node si ti s)) (snd (statement_tail node si ti s'))"
proof -
  let ?w = "analyze_where_clause node s" and ?w' = "analyze_where_clause node s'"
  have w: "fst ?w = fst ?w'" "same_core (snd ?w) (snd ?w')"
    using core_where_clause_loop [OF assms] by (simp_all add: analyze_where_clause_def)
  let ?g = "analyze_group_by_clause node (snd ?w)" and ?g' = "analyze_group_by_clause node (snd ?w')"
  have g: "fst ?g = fst ?g'" "same_core (snd ?g) (snd ?g')"
    using core_group_by_loop [OF w(2)] by (simp_all add: analyze_group_by_clause_def)
  let ?h = "analyze_having_clause node (snd ?g)" and ?h' = "analyze_having_clause node (snd ?g')"
  have h: "fst ?h = fst ?h'" "same_core (snd ?h) (snd ?h')"
    using core_having_clause_loop [OF g(2)] by (simp_all add: analyze_having_clause_def)
  let ?o = "analyze_order_by_clause node (snd ?h)" and ?o' = "analyze_order_by_clause node (snd ?h')"
  have o: "same_core ?o ?o'"
    using core_order_by_loop [OF h(2)] by (simp add: analyze_order_by_clause_def)
  have t: "fst (generate_temp ?o) = fst (generate_temp ?o')"
    "same_core (snd (generate_temp ?o)) (snd (generate_temp ?o'))"
    using core_generate_temp [OF o] by simp_all
  have e: "same_core (emit a1 b1 c1 d1 (emit a2 b2 c2 d2 (emit a3 b3 c3 d3 (snd (generate_temp ?o)))))
             (emit a1 b1 c1 d1 (emit a2 b2 c2 d2 (emit a3 b3 c3 d3 (snd (generate_temp ?o')))))"
    for a1 b1 c1 d1 a2 b2 c2 d2 a3 b3 c3 d3
    by (intro core_emit t(2))
  show ?thesis
    using w g h e
    by (simp add: statement_tail_def Let_def case_prod_unfold t(1) split: sum.splits)
qed

lemma core_analyze_select_statement:
  assumes "same_core s s'"
  shows "fst (analyze_select_statement node s) = fst (analyze_select_statement node s')
         \<and> same_core (snd (analyze_select_statement node s)) (snd (analyze_select_statement node s'))"
proof -
  let ?b = "emit (PStr ''BEGIN'') PNone PNone PNone s"
  let ?b' = "emit (PStr ''BEGIN'') PNone PNone PNone s'"
  have b: "same_core ?b ?b'" by (rule core_emit [OF assms])
  let ?f = "analyze_from_clause node ?b" and ?f' = "analyze_from_clause node ?b'"
  have f: "fst ?f = fst ?f'" "same_core (snd ?f) (snd ?f')"
    using core_from_clause_loop [of "children node" _ ?b ?b'] core_from_clause_state [OF b]
    by (simp_all add: analyze_from_clause_def)
  let ?l = "analyze_select_list node (snd ?f)" and ?l' = "analyze_select_list node (snd ?f')"
  have l: "fst ?l = fst ?l'" "same_core (snd ?l) (snd ?l')"
    using core_column_list_loop [OF f(2)] by (simp_all add: analyze_select_list_columns)
  let ?j = "analyze_join_clauses node (fst ?f) (snd ?l)"
  let ?j' = "analyze_join_clauses node (fst ?f') (snd ?l')"
  have j: "fst ?j = fst ?j'" "same_core (snd ?j) (snd ?j')"
    using core_join_clauses_loop [OF l(2)] by (simp_all add: analyze_join_clauses_def f(1))
  show ?thesis
    using core_statement_tail [OF j(2), of node "fst ?l'" "fst ?j'"]
    by (simp add: analyze_select_statement_tail Let_def l(1) j(1))
qed

lemma core_analyze:
  "fst (analyze ast s) = fst (analyze ast s')
   \<and> same_core (snd (analyze ast s)) (snd (analyze ast s'))"
proof -
  have r: "same_core (reset s) (reset s')" by (simp add: same_core_def reset_def)
  show ?thesis
    using core_analyze_select_statement [OF r, of ast] r
    by (auto simp: analyze_unfold same_core_def split: prod.splits sum.splits)
qed

lemma analyze_reset: "analyze ast (reset s) = analyze ast s"
  by (simp add: analyze_def reset_def)

lemma label_counter_analyze: "label_counter (snd (analyze ast s)) = 0"
  using grows_analyze [of s ast] by (simp add: grows_def reset_def)

section \<open>When the pass completes\<close>

lemma group_by_inner_loop_columns:
  "group_columns (group_by_inner_loop gs gi)
     = group_columns gi @ map nvalue (filter (\<lambda>g. ntype g = IDENTIFIER) gs)"
  by (induction gs arbitrary: gi) simp_all

lemma group_by_loop_ok:
  assumes "\<forall>c\<in>set cs. ntype c = GROUP_BY_CLAUSE \<longrightarrow>
             (\<forall>g\<in>set (children c). ntype g = IDENTIFIER \<longrightarrow> nvalue g \<noteq> None)"
    and "None \<notin> set (group_columns gi)"
  shows "\<exists>gi'. fst (group_by_loop cs gi s) = Inr gi'"
  using assms
proof (induction cs arbitrary: gi s)
  case Nil
  then show ?case by simp
next
  case (Cons c cs)
  show ?case
  proof (cases "ntype c = GROUP_BY_CLAUSE")
    case True
    let ?gi1 = "group_by_inner_loop (children c) (gi\<lparr>has_group_by := True\<rparr>)"
    have n: "None \<notin> set (group_columns ?gi1)"
      using Cons.prems True by (auto simp: group_by_inner_loop_columns)
    then have j: "py_join '','' (group_columns ?gi1)
                    = Inr (join_strs '','' (map the (group_columns ?gi1)))"
      by (simp add: py_join_def)
    from Cons.prems have "\<forall>c\<in>set cs. ntype c = GROUP_BY_CLAUSE \<longrightarrow>
             (\<forall>g\<in>set (children c). ntype g = IDENTIFIER \<longrightarrow> nvalue g \<noteq> None)" by simp
    from Cons.IH [OF this n] show ?thesis
      using True by (simp add: Let_def case_prod_unfold j)
  next
    case False
    with Cons show ?thesis by simp
  qed
qed

lemma statement_tail_succeeds:
  assumes "\<forall>c\<in>set (children node). ntype c \<noteq> WHERE_CLAUSE \<and> ntype c \<noteq> HAVING_CLAUSE"
    and "\<forall>c\<in>set (children node). ntype c = GROUP_BY_CLAUSE \<longrightarrow>
             (\<forall>g\<in>set (children c). ntype g = IDENTIFIER \<longrightarrow> nvalue g \<noteq> None)"
  shows "fst (statement_tail node si ti s) = Inr ()"
proof -
  have w: "analyze_where_clause node s = (Inr (), s)"
    using assms(1) by (auto simp: analyze_where_clause_def where_clause_loop_eq)
  obtain gi where g: "fst (analyze_group_by_clause node s) = Inr gi"
    using group_by_loop_ok [OF assms(2), of "\<lparr>group_columns = [], has_group_by = False\<rparr>" s]
    by (auto simp: analyze_group_by_clause_def)
  have h: "fst (analyze_having_clause node s6) = Inr ()" for s6
    using assms(1) by (auto simp: analyze_having_clause_def having_clause_loop_eq)
  show ?thesis
    using g h by (simp add: statement_tail_def w Let_def case_prod_unfold split: sum.splits prod.splits)
qed

lemma analyze_succeeds:
  assumes "ntype ast = SELECT_STMT"
    and "\<forall>c\<in>set (children ast). ntype c \<noteq> WHERE_CLAUSE \<and> ntype c \<noteq> HAVING_CLAUSE"
    and "\<forall>c\<in>set (children ast). ntype c = GROUP_BY_CLAUSE \<longrightarrow>
             (\<forall>g\<in>set (children c). ntype g = IDENTIFIER \<longrightarrow> nvalue g \<noteq> None)"
  shows "snd (fst (analyze ast s)) = None"
  using statement_tail_succeeds [OF assms(2,3)] assms(1)
  by (simp add: analyze_unfold analyze_select_statement_tail Let_def case_prod_unfold
           split: sum.splits)

lemma symbols_statement_tail:
  "symbol_table (snd (statement_tail node si ti s)) = symbol_table s"
proof -
  have w: "symbol_table (snd (analyze_where_clause node s)) = symbol_table s" for s
    by (simp add: analyze_where_clause_def where_clause_loop_eq)
  have g: "symbol_table (snd (analyze_group_by_clause node s)) = symbol_table s" for s
    by (simp add: analyze_group_by_clause_def symbols_group_by_loop)
  have h: "symbol_table (snd (analyze_having_clause node s)) = symbol_table s" for s
    by (simp add: analyze_having_clause_def having_clause_loop_eq)
  have o: "symbol_table (analyze_order_by_clause node s) = symbol_table s" for s
    by (simp add: analyze_order_by_clause_def symbols_order_by_loop)
  obtain r5 s5 where e5: "analyze_where_clause node s = (r5, s5)" by fastforce
  obtain r6 s6 where e6: "analyze_group_by_clause node s5 = (r6, s6)" by fastforce
  obtain r7 s7 where e7: "analyze_having_clause node s6 = (r7, s7)" by fastforce
  have "symbol_table s5 = symbol_table s" using w [of s] by (simp add: e5)
  moreover have "symbol_table s6 = symbol_table s5" using g [of s5] by (simp add: e6)
  moreover have "symbol_table s7 = symbol_table s6" using h [of s6] by (simp add: e7)
  ultimately show ?thesis
    by (simp add: statement_tail_def e5 e6 e7 Let_def case_prod_unfold o split: sum.splits)
qed

lemma symbols_analyze_select_statement:
  "symbol_table (snd (analyze_select_statement node s))
     = symbol_table (snd (analyze_from_clause node (emit (PStr ''BEGIN'') PNone PNone PNone s)))"
  by (simp add: analyze_select_statement_tail Let_def symbols_statement_tail
        analyze_join_clauses_def symbols_join_clauses_loop
        analyze_select_list_def symbols_select_list_loop)

section \<open>Evaluation on concrete trees\<close>

lemmas run_simps =
  init_def analyze_def analyze_select_statement_def Let_def
  analyze_from_clause_def from_clause_body_def analyze_select_list_def
  analyze_column_list_def column_list_body_def add_column_def get_aggregate_column_def
  analyze_join_clauses_def analyze_join_clause_def join_clause_body_def
  analyze_join_condition_def analyze_where_clause_def analyze_condition_def emit_call_def
  analyze_group_by_clause_def py_join_def analyze_having_clause_def
  analyze_order_by_clause_def generate_temp_def temp_name_def
  str_of_nat_small digit_char_def emit_def add_symbol_def

lemma analyze_query_name:
  "fst (analyze query_name init) =
     ([\<lparr>op = PStr ''BEGIN'', arg1 = PNone, arg2 = PNone, result = PNone\<rparr>,
       \<lparr>op = PStr ''SELECT'', arg1 = PList [Some ''name''], arg2 = PStr ''students'', result = PStr ''T1''\<rparr>,
       \<lparr>op = PStr ''OUTPUT'', arg1 = PStr ''T1'', arg2 = PNone, result = PNone\<rparr>,
       \<lparr>op = PStr ''END'', arg1 = PNone, arg2 = PNone, result = PNone\<rparr>], None)"
  by (simp add: query_name_def run_simps)

section \<open>The column list\<close>

lemma column_list_loop_append:
  "column_list_loop (xs @ ys) si s =
     column_list_loop ys (fst (column_list_loop xs si s)) (snd (column_list_loop xs si s))"
  by (induction xs arbitrary: si s) (simp_all add: case_prod_unfold)

lemma column_list_body_count:
  "temp_counter (snd (column_list_body c si s)) = temp_counter s + (if is_agg c then 1 else 0)"
  "length (quadruples (snd (column_list_body c si s)))
     = length (quadruples s) + (if is_agg c then 1 else 0)"
  by (simp_all add: column_list_body_def is_agg_def Let_def generate_temp_eq)

lemma column_list_loop_count:
  "temp_counter (snd (column_list_loop cs si s)) = temp_counter s + length (filter is_agg cs)"
  "length (quadruples (snd (column_list_loop cs si s)))
     = length (quadruples s) + length (filter is_agg cs)"
  by (induction cs arbitrary: si s) (simp_all add: case_prod_unfold column_list_body_count)

lemma column_list_body_agg:
  assumes "ntype c = AGGREGATE_FUNCTION"
  shows "quadruples (snd (column_list_body c si s)) = quadruples s @
           [\<lparr>op = of_opt (nvalue c),
             arg1 = PStr (if nvalue c = Some ''COUNT'' then ''*'' else ''value''),
             arg2 = PNone, result = PStr (temp_name (Suc (temp_counter s)))\<rparr>]"
    and "columns (fst (column_list_body c si s))
           = add_column (columns si) (Some (temp_name (Suc (temp_counter s))))"
  using assms
  by (simp_all add: column_list_body_def Let_def generate_temp_eq get_aggregate_column_def)

lemma add_column_list: "\<exists>xs. add_column cols v = PList (xs @ [v])"
  by (cases cols) (simp_all add: add_column_def)

lemma columns_keep_prefix:
  assumes "\<forall>c\<in>set post. \<not> is_wildcard c" and "columns si = PList xs"
  shows "\<exists>ys. columns (fst (column_list_loop post si s)) = PList (xs @ ys)"
  using assms
proof (induction post arbitrary: si s xs)
  case Nil
  then show ?case by simp
next
  case (Cons c post)
  have "\<exists>zs. columns (fst (column_list_body c si s)) = PList (xs @ zs)"
    using Cons.prems
    by (auto simp: column_list_body_def Let_def is_wildcard_def add_column_def case_prod_unfold)
  then obtain zs where z: "columns (fst (column_list_body c si s)) = PList (xs @ zs)" ..
  from Cons.prems have "\<forall>c\<in>set post. \<not> is_wildcard c" by simp
  from Cons.IH [OF this z, of "snd (column_list_body c si s)"]
  show ?case by (auto simp: case_prod_unfold)
qed

lemma columns_wildcard_stays:
  assumes "\<forall>c\<in>set post. ntype c \<noteq> AGGREGATE_FUNCTION
             \<and> (ntype c = IDENTIFIER \<longrightarrow> nvalue c = Some ''*'')"
    and "columns si = PStr ''*''"
  shows "columns (fst (column_list_loop post si s)) = PStr ''*''"
  using assms
proof (induction post arbitrary: si s)
  case Nil
  then show ?case by simp
next
  case (Cons c post)
  have b: "columns (fst (column_list_body c si s)) = PStr ''*''"
    using Cons.prems by (auto simp: column_list_body_def Let_def)
  from Cons.prems have "\<forall>c\<in>set post. ntype c \<noteq> AGGREGATE_FUNCTION
             \<and> (ntype c = IDENTIFIER \<longrightarrow> nvalue c = Some ''*'')" by simp
  from Cons.IH [OF this b] show ?case by (simp add: case_prod_unfold)
qed

lemma prefix_nth: "prefix xs ys \<Longrightarrow> i < length xs \<Longrightarrow> ys ! i = xs ! i"
  by (auto simp: prefix_def nth_append)

lemma select_list_state:
  "quadruples (snd (analyze_from_clause ast (emit (PStr ''BEGIN'') PNone PNone PNone (reset s))))
     = [\<lparr>op = PStr ''BEGIN'', arg1 = PNone, arg2 = PNone, result = PNone\<rparr>]"
  "temp_counter (snd (analyze_from_clause ast (emit (PStr ''BEGIN'') PNone PNone PNone (reset s)))) = 0"
  by (simp_all add: analyze_from_clause_def reset_def)

lemma analyze_ok_buffer:
  assumes "snd (fst (analyze ast s)) = None"
  shows "\<exists>s8. grows (snd (analyze_select_list ast
                  (snd (analyze_from_clause ast (emit (PStr ''BEGIN'') PNone PNone PNone (reset s)))))) s8
     \<and> fst (fst (analyze ast s)) = quadruples s8 @
          [\<lparr>op = PStr ''SELECT'',
            arg1 = columns (fst (analyze_select_list ast
                     (snd (analyze_from_clause ast (emit (PStr ''BEGIN'') PNone PNone PNone (reset s)))))),
            arg2 = of_opt (main_table (fst (analyze_from_clause ast
                     (emit (PStr ''BEGIN'') PNone PNone PNone (reset s))))),
            result = PStr (temp_name (Suc (temp_counter s8)))\<rparr>,
           \<lparr>op = PStr ''OUTPUT'', arg1 = PStr (temp_name (Suc (temp_counter s8))), arg2 = PNone, result = PNone\<rparr>,
           \<lparr>op = PStr ''END'', arg1 = PNone, arg2 = PNone, result = PNone\<rparr>]"
proof -
  let ?b = "emit (PStr ''BEGIN'') PNone PNone PNone (reset s)"
  let ?f = "analyze_from_clause ast ?b"
  let ?l = "analyze_select_list ast (snd ?f)"
  let ?j = "analyze_join_clauses ast (fst ?f) (snd ?l)"
  from assms have sel: "ntype ast = SELECT_STMT"
    by (auto simp: analyze_unfold split: if_splits)
  obtain r s' where e: "analyze_select_statement ast (reset s) = (r, s')" by fastforce
  with assms sel obtain u where r: "r = Inr u"
    by (cases r) (auto simp: analyze_unfold)
  have res: "fst (fst (analyze ast s)) = quadruples s'"
    using sel e r by (simp_all add: analyze_unfold)
  have t: "statement_tail ast (fst ?l) (fst ?j) (snd ?j) = (Inr u, s')"
    using e r by (simp add: analyze_select_statement_tail Let_def)
  from statement_tail_ok [OF t] obtain s8 where
    g: "grows (snd ?j) s8" and
    s': "s' = emit (PStr ''END'') PNone PNone PNone
                    (emit (PStr ''OUTPUT'') (PStr (temp_name (Suc (temp_counter s8)))) PNone PNone
                      (emit (PStr ''SELECT'') (columns (fst ?l)) (of_opt (main_table (fst ?j)))
                         (PStr (temp_name (Suc (temp_counter s8)))) (snd (generate_temp s8))))"
    by blast
  have "grows (snd ?l) (snd ?j)"
    unfolding analyze_join_clauses_def by (rule grows_join_clauses_loop)
  then have g8: "grows (snd ?l) s8" using g by (rule grows_trans)
  have mt: "main_table (fst ?j) = main_table (fst ?f)"
    by (simp add: analyze_join_clauses_def main_table_join_clauses_loop)
  show ?thesis
    using g8 by (intro exI [of _ s8]) (simp add: res s' mt generate_temp_eq)
qed

lemma grows_after_select_list:
  "ntype ast = SELECT_STMT \<Longrightarrow>
   grows (snd (analyze_select_list ast
            (snd (analyze_from_clause ast (emit (PStr ''BEGIN'') PNone PNone PNone (reset s))))))
         (snd (analyze ast s))"
proof -
  assume sel: "ntype ast = SELECT_STMT"
  let ?b = "emit (PStr ''BEGIN'') PNone PNone PNone (reset s)"
  let ?f = "analyze_from_clause ast ?b"
  let ?l = "analyze_select_list ast (snd ?f)"
  let ?j = "analyze_join_clauses ast (fst ?f) (snd ?l)"
  have "grows (snd ?l) (snd ?j)"
    unfolding analyze_join_clauses_def by (rule grows_join_clauses_loop)
  from grows_trans [OF this grows_statement_tail]
  show ?thesis using sel
    by (simp add: snd_analyze analyze_select_statement_tail Let_def)
qed

lemma select_list_split:
  assumes "select_columns ast = pre @ c # post"
  shows "analyze_select_list ast s2 =
     column_list_loop post
       (fst (column_list_body c
          (fst (column_list_loop pre \<lparr>columns = PList [], aggregates = [], has_aggregates = False\<rparr> s2))
          (snd (column_list_loop pre \<lparr>columns = PList [], aggregates = [], has_aggregates = False\<rparr> s2))))
       (snd (column_list_body c
          (fst (column_list_loop pre \<lparr>columns = PList [], aggregates = [], has_aggregates = False\<rparr> s2))
          (snd (column_list_loop pre \<lparr>columns = PList [], aggregates = [], has_aggregates = False\<rparr> s2))))"
  by (simp add: analyze_select_list_columns assms column_list_loop_append case_prod_unfold)

section \<open>JOIN clauses\<close>

lemma join_clause_loop_result:
  "join_clause_loop cs (jt, jc, ti) =
     (if filter (\<lambda>c. ntype c = TABLE_NAME) cs = [] then jt
      else nvalue (last (filter (\<lambda>c. ntype c = TABLE_NAME) cs)),
      if filter (\<lambda>c. ntype c = ON_CLAUSE) cs = [] then jc
      else Some \<lparr>jc_left = ''table1.id'', jc_right = ''table2.id'', jc_op = ''EQ''\<rparr>,
      ti\<lparr>tables := tables ti @ map nvalue (filter (\<lambda>c. ntype c = TABLE_NAME) cs)\<rparr>)"
  by (induction cs arbitrary: jt jc ti)
     (simp_all add: join_clause_body_def analyze_join_condition_def)

lemma analyze_join_clause_effect:
  "snd (analyze_join_clause node ti s) =
     (if truthy (join_table_of node) \<and> has_on_clause node then
        emit (PStr ''ON'') (PStr ''table1.id'') (PStr ''table2.id'') (PStr ''EQ'')
          (emit (PStr ''JOIN'') (of_opt (main_table ti)) (of_opt (join_table_of node))
             (PStr (temp_name (Suc (temp_counter s)))) (snd (generate_temp s)))
      else s)"
  by (simp add: analyze_join_clause_def join_clause_loop_result join_table_of_def
        has_on_clause_def Let_def generate_temp_eq)

lemma join_clauses_loop_append:
  "join_clauses_loop (xs @ ys) ti s =
     join_clauses_loop ys (fst (join_clauses_loop xs ti s)) (snd (join_clauses_loop xs ti s))"
  by (induction xs arbitrary: ti s) (simp_all add: case_prod_unfold)

section \<open>Exactly which passes complete\<close>

lemma group_by_loop_fails:
  assumes "\<exists>c\<in>set cs. ntype c = GROUP_BY_CLAUSE
             \<and> (\<exists>g\<in>set (children c). ntype g = IDENTIFIER \<and> nvalue g = None)"
  shows "fst (group_by_loop cs gi s) = Inl TypeError"
  using assms
proof (induction cs arbitrary: gi s)
  case Nil
  then show ?case by simp
next
  case (Cons c cs)
  show ?case
  proof (cases "ntype c = GROUP_BY_CLAUSE")
    case False
    with Cons show ?thesis by simp
  next
    case True
    let ?gi1 = "group_by_inner_loop (children c) (gi\<lparr>has_group_by := True\<rparr>)"
    show ?thesis
    proof (cases "None \<in> set (group_columns ?gi1)")
      case True
      then have "group_columns ?gi1 \<noteq> []" by auto
      with True \<open>ntype c = GROUP_BY_CLAUSE\<close> show ?thesis
        by (simp add: Let_def case_prod_unfold py_join_def)
    next
      case False
      have "nvalue g \<in> set (group_columns ?gi1)"
        if "g \<in> set (children c)" and "ntype g = IDENTIFIER" for g
        using that by (simp add: group_by_inner_loop_columns)
      with False have "\<not> (\<exists>g\<in>set (children c). ntype g = IDENTIFIER \<and> nvalue g = None)"
        by metis
      with Cons.prems have rest: "\<exists>c\<in>set cs. ntype c = GROUP_BY_CLAUSE
             \<and> (\<exists>g\<in>set (children c). ntype g = IDENTIFIER \<and> nvalue g = None)"
        by auto
      from False have j: "py_join '','' (group_columns ?gi1)
                    = Inr (join_strs '','' (map the (group_columns ?gi1)))"
        by (simp add: py_join_def)
      show ?thesis
        using Cons.IH [OF rest] \<open>ntype c = GROUP_BY_CLAUSE\<close>
        by (simp add: Let_def case_prod_unfold j)
    qed
  qed
qed

lemma statement_tail_group_by:
  assumes "\<exists>c\<in>set (children node). ntype c = GROUP_BY_CLAUSE
             \<and> (\<exists>g\<in>set (children c). ntype g = IDENTIFIER \<and> nvalue g = None)"
  shows "fst (statement_tail node si ti s) = Inl TypeError"
proof -
  have "fst (analyze_group_by_clause node s') = Inl TypeError" for s'
    unfolding analyze_group_by_clause_def by (rule group_by_loop_fails [OF assms])
  then show ?thesis
    by (simp add: statement_tail_def analyze_where_clause_def where_clause_loop_eq
          case_prod_unfold split: sum.splits)
qed

text \<open>
  Exactly which passes complete: the root is a \<open>SELECT_STMT\<close>, it has neither a
  \<open>WHERE_CLAUSE\<close> nor a \<open>HAVING_CLAUSE\<close> child, and every \<open>IDENTIFIER\<close> under its
  \<open>GROUP_BY_CLAUSE\<close> children has a value.
\<close>

lemma analyze_completes_iff:
  "snd (fst (analyze ast s)) = None \<longleftrightarrow>
     ntype ast = SELECT_STMT
     \<and> (\<forall>c\<in>set (children ast). ntype c \<noteq> WHERE_CLAUSE \<and> ntype c \<noteq> HAVING_CLAUSE)
     \<and> (\<forall>c\<in>set (children ast). ntype c = GROUP_BY_CLAUSE \<longrightarrow>
           (\<forall>g\<in>set (children c). ntype g = IDENTIFIER \<longrightarrow> nvalue g \<noteq> None))"
  (is "?ok \<longleftrightarrow> ?sel \<and> ?nwh \<and> ?grp")
proof
  assume "?sel \<and> ?nwh \<and> ?grp"
  then show ?ok by (intro analyze_succeeds) auto
next
  assume ok: ?ok
  then have sel: ?sel by (auto simp: analyze_unfold split: if_splits)
  let ?b = "emit (PStr ''BEGIN'') PNone PNone PNone (reset s)"
  let ?f = "analyze_from_clause ast ?b"
  let ?l = "analyze_select_list ast (snd ?f)"
  let ?j = "analyze_join_clauses ast (fst ?f) (snd ?l)"
  have t: "\<exists>u. fst (statement_tail ast (fst ?l) (fst ?j) (snd ?j)) = Inr u"
    using ok sel
    by (auto simp: analyze_unfold analyze_select_statement_tail Let_def
             split: prod.splits sum.splits)
  have w: "\<not> (\<exists>c\<in>set (children ast). ntype c = WHERE_CLAUSE)"
  proof
    assume "\<exists>c\<in>set (children ast). ntype c = WHERE_CLAUSE"
    from statement_tail_where [OF this, of "fst ?l" "fst ?j" "snd ?j"]
    have "fst (statement_tail ast (fst ?l) (fst ?j) (snd ?j)) = Inl TypeError" by simp
    with t show False by simp
  qed
  have h: "\<not> (\<exists>c\<in>set (children ast). ntype c = HAVING_CLAUSE)"
    using t statement_tail_having [of ast "fst ?l" "fst ?j" "snd ?j"] by auto
  have g: "\<not> (\<exists>c\<in>set (children ast). ntype c = GROUP_BY_CLAUSE
             \<and> (\<exists>g\<in>set (children c). ntype g = IDENTIFIER \<and> nvalue g = None))"
  proof
    assume "\<exists>c\<in>set (children ast). ntype c = GROUP_BY_CLAUSE
             \<and> (\<exists>g\<in>set (children c). ntype g = IDENTIFIER \<and> nvalue g = None)"
    from statement_tail_group_by [OF this, of "fst ?l" "fst ?j" "snd ?j"] t
    show False by simp
  qed
  have nwh: ?nwh using w h by auto
  have grp: ?grp
  proof (intro ballI impI)
    fix c x
    assume c: "c \<in> set (children ast)" "ntype c = GROUP_BY_CLAUSE"
      and x: "x \<in> set (children c)" "ntype x = IDENTIFIER"
    show "nvalue x \<noteq> None"
    proof
      assume "nvalue x = None"
      with c x have "\<exists>c\<in>set (children ast). ntype c = GROUP_BY_CLAUSE
             \<and> (\<exists>g\<in>set (children c). ntype g = IDENTIFIER \<and> nvalue g = None)"
        by blast
      with g show False ..
    qed
  qed
  from sel nwh grp show "?sel \<and> ?nwh \<and> ?grp" by simp
qed

lemma analyze_where_aborts:
  assumes "ntype ast = SELECT_STMT" and "\<exists>c\<in>set (children ast). ntype c = WHERE_CLAUSE"
  shows "fst (analyze ast s) = ([], Some TypeError)"
  using assms
  by (simp add: analyze_unfold analyze_select_statement_tail Let_def statement_tail_where)

section \<open>The temporaries in the buffer\<close>

lemma result_temps_append [simp]: "result_temps (xs @ ys) = result_temps xs @ result_temps ys"
  by (simp add: result_temps_def)

lemma result_temps_single:
  "result_temps [\<lparr>op = opr, arg1 = a1, arg2 = a2, result = res\<rparr>]
     = (if res \<noteq> PNone \<and> res \<noteq> PStr ''EQ'' then [res] else [])"
  by (simp add: result_temps_def)

lemma temp_name_not_EQ: "temp_name n \<noteq> ''EQ''"
  by (simp add: temp_name_def)

lemma tight_refl [simp]: "tight s s"
  by (simp add: tight_def)

lemma tight_trans:
  assumes "tight s s1" and "tight s1 s2"
  shows "tight s s2"
proof -
  have le: "temp_counter s \<le> temp_counter s1" "temp_counter s1 \<le> temp_counter s2"
    using assms by (simp_all add: tight_def)
  have "result_temps (quadruples s2) = result_temps (quadruples s)
          @ map (\<lambda>n. PStr (temp_name n)) ([Suc (temp_counter s)..<Suc (temp_counter s1)]
                      @ [Suc (temp_counter s1)..<Suc (temp_counter s2)])"
    using assms by (simp add: tight_def del: upt_Suc)
  also have "[Suc (temp_counter s)..<Suc (temp_counter s1)]
               @ [Suc (temp_counter s1)..<Suc (temp_counter s2)]
             = [Suc (temp_counter s)..<Suc (temp_counter s2)]"
    using le by (intro upt_split) simp_all
  finally show ?thesis
    using le by (simp add: tight_def del: upt_Suc)
qed

lemma tight_emit_plain:
  "res = PNone \<or> res = PStr ''EQ'' \<Longrightarrow> tight s (emit opr a1 a2 res s)"
  by (auto simp: tight_def result_temps_single)

lemma tight_emit_temp:
  "tight s (emit opr a1 a2 (PStr (temp_name (Suc (temp_counter s)))) (snd (generate_temp s)))"
  by (simp add: tight_def result_temps_single generate_temp_eq temp_name_not_EQ)

lemma tight_from_clause_loop: "tight s (snd (from_clause_loop cs ti s))"
  by (simp add: tight_def)

lemma tight_column_list_body: "tight s (snd (column_list_body c si s))"
  by (simp add: column_list_body_def Let_def generate_temp_eq tight_def result_temps_single
        temp_name_not_EQ)

lemma tight_column_list_loop: "tight s (snd (column_list_loop cs si s))"
proof (induction cs arbitrary: si s)
  case Nil
  then show ?case by simp
next
  case (Cons c cs)
  from tight_trans [OF tight_column_list_body Cons.IH] show ?case
    by (simp add: case_prod_unfold)
qed

lemma tight_analyze_join_clause: "tight s (snd (analyze_join_clause c ti s))"
  by (simp add: analyze_join_clause_effect generate_temp_eq tight_def result_temps_def
        temp_name_not_EQ)

lemma tight_join_clauses_loop: "tight s (snd (join_clauses_loop cs ti s))"
proof (induction cs arbitrary: ti s)
  case Nil
  then show ?case by simp
next
  case (Cons c cs)
  from tight_trans [OF tight_analyze_join_clause Cons.IH] Cons.IH show ?case
    by (simp add: case_prod_unfold)
qed

lemma tight_order_by_loop: "tight s (order_by_loop cs s)"
proof (induction cs arbitrary: s)
  case Nil
  then show ?case by simp
next
  case (Cons c cs)
  from tight_trans [OF tight_emit_temp Cons.IH] Cons.IH show ?case
    by (simp add: Let_def case_prod_unfold generate_temp_eq)
qed

lemma loose_tight: "tight s s' \<Longrightarrow> loose s s'"
  by (simp add: loose_def)

lemma loose_generate_temp: "tight s sa \<Longrightarrow> loose s (snd (generate_temp sa))"
  by (auto simp: loose_def)

lemma tight_loose_trans: "tight s s1 \<Longrightarrow> loose s1 s2 \<Longrightarrow> loose s s2"
  by (auto simp: loose_def intro: tight_trans)

lemma group_by_loop_temps:
  "loose s (snd (group_by_loop cs gi s))
   \<and> ((\<exists>gi'. fst (group_by_loop cs gi s) = Inr gi') \<longrightarrow> tight s (snd (group_by_loop cs gi s)))"
proof (induction cs arbitrary: gi s)
  case Nil
  then show ?case by (simp add: loose_tight)
next
  case (Cons c cs)
  show ?case
  proof (cases "ntype c = GROUP_BY_CLAUSE")
    case False
    with Cons.IH [where gi = gi and s = s] show ?thesis by simp
  next
    case True
    let ?gi1 = "group_by_inner_loop (children c) (gi\<lparr>has_group_by := True\<rparr>)"
    show ?thesis
    proof (cases "group_columns ?gi1 = []")
      case True
      with \<open>ntype c = GROUP_BY_CLAUSE\<close> Cons.IH [where gi = ?gi1 and s = s] show ?thesis
        by (simp add: Let_def)
    next
      case ne: False
      show ?thesis
      proof (cases "py_join '','' (group_columns ?gi1)")
        case (Inl e)
        with ne \<open>ntype c = GROUP_BY_CLAUSE\<close> show ?thesis
          by (simp add: Let_def case_prod_unfold loose_generate_temp)
      next
        case (Inr joined)
        let ?s1 = "emit (PStr ''GROUP_BY'') (PStr joined) PNone
                     (PStr (temp_name (Suc (temp_counter s)))) (snd (generate_temp s))"
        have t: "tight s ?s1" by (rule tight_emit_temp)
        have eq: "group_by_loop (c # cs) gi s = group_by_loop cs ?gi1 ?s1"
          using ne Inr \<open>ntype c = GROUP_BY_CLAUSE\<close>
          by (simp add: Let_def case_prod_unfold generate_temp_eq)
        show ?thesis
          unfolding eq using Cons.IH [where gi = ?gi1 and s = ?s1] t
          by (auto intro: tight_loose_trans tight_trans)
      qed
    qed
  qed
qed

lemma statement_tail_temps:
  "loose s (snd (statement_tail node si ti s))
   \<and> ((\<exists>u. fst (statement_tail node si ti s) = Inr u) \<longrightarrow> tight s (snd (statement_tail node si ti s)))"
proof (cases "\<exists>c\<in>set (children node). ntype c = WHERE_CLAUSE")
  case True
  then show ?thesis
    by (simp add: statement_tail_where loose_generate_temp)
next
  case nw: False
  then have w: "analyze_where_clause node s = (Inr (), s)"
    by (simp add: analyze_where_clause_def where_clause_loop_eq)
  obtain r6 s6 where e6: "analyze_group_by_clause node s = (r6, s6)" by fastforce
  have g: "loose s s6" "(\<exists>gi'. r6 = Inr gi') \<longrightarrow> tight s s6"
    using group_by_loop_temps [where s = s and cs = "children node"
            and gi = "\<lparr>group_columns = [], has_group_by = False\<rparr>"] e6
    by (simp_all add: analyze_group_by_clause_def)
  show ?thesis
  proof (cases r6)
    case (Inl e)
    then show ?thesis using g(1) by (simp add: statement_tail_def w e6)
  next
    case (Inr gi)
    with g(2) have t6: "tight s s6" by simp
    show ?thesis
    proof (cases "\<exists>c\<in>set (children node). ntype c = HAVING_CLAUSE")
      case True
      then show ?thesis
        using t6 Inr
        by (simp add: statement_tail_def w e6 analyze_having_clause_def having_clause_loop_eq
              loose_generate_temp)
    next
      case False
      let ?s8 = "analyze_order_by_clause node s6"
      have "tight s6 ?s8"
        unfolding analyze_order_by_clause_def by (rule tight_order_by_loop)
      with t6 have t8: "tight s ?s8" by (rule tight_trans)
      have "tight ?s8 (emit (PStr ''SELECT'') (columns si) (of_opt (main_table ti))
                         (PStr (temp_name (Suc (temp_counter ?s8)))) (snd (generate_temp ?s8)))"
        by (rule tight_emit_temp)
      then have "tight ?s8 (emit (PStr ''END'') PNone PNone PNone
                    (emit (PStr ''OUTPUT'') (PStr (temp_name (Suc (temp_counter ?s8)))) PNone PNone
                      (emit (PStr ''SELECT'') (columns si) (of_opt (main_table ti))
                         (PStr (temp_name (Suc (temp_counter ?s8)))) (snd (generate_temp ?s8)))))"
        by (blast intro: tight_trans tight_emit_plain)
      with t8 have "tight s (emit (PStr ''END'') PNone PNone PNone
                    (emit (PStr ''OUTPUT'') (PStr (temp_name (Suc (temp_counter ?s8)))) PNone PNone
                      (emit (PStr ''SELECT'') (columns si) (of_opt (main_table ti))
                         (PStr (temp_name (Suc (temp_counter ?s8)))) (snd (generate_temp ?s8)))))"
        by (rule tight_trans)
      then show ?thesis
        using False Inr
        by (simp add: statement_tail_def w e6 analyze_having_clause_def having_clause_loop_eq
              Let_def generate_temp_eq loose_tight)
    qed
  qed
qed

lemma analyze_temps:
  "loose (reset s) (snd (analyze ast s))
   \<and> (snd (fst (analyze ast s)) = None \<longrightarrow> tight (reset s) (snd (analyze ast s)))"
proof (cases "ntype ast = SELECT_STMT")
  case False
  then show ?thesis by (simp add: analyze_unfold loose_tight)
next
  case True
  let ?b = "emit (PStr ''BEGIN'') PNone PNone PNone (reset s)"
  let ?f = "analyze_from_clause ast ?b"
  let ?l = "analyze_select_list ast (snd ?f)"
  let ?j = "analyze_join_clauses ast (fst ?f) (snd ?l)"
  let ?t = "statement_tail ast (fst ?l) (fst ?j) (snd ?j)"
  have "tight (reset s) ?b" by (simp add: tight_emit_plain)
  moreover have "tight ?b (snd ?f)"
    unfolding analyze_from_clause_def by (rule tight_from_clause_loop)
  moreover have "tight (snd ?f) (snd ?l)"
    unfolding analyze_select_list_columns by (rule tight_column_list_loop)
  moreover have "tight (snd ?l) (snd ?j)"
    unfolding analyze_join_clauses_def by (rule tight_join_clauses_loop)
  ultimately have tj: "tight (reset s) (snd ?j)"
    by (blast intro: tight_trans)
  have fin: "snd (analyze ast s) = snd ?t"
    using True by (simp add: snd_analyze analyze_select_statement_tail Let_def)
  have ok: "\<exists>u. fst ?t = Inr u" if "snd (fst (analyze ast s)) = None"
    using that True
    by (auto simp: analyze_unfold analyze_select_statement_tail Let_def
             split: prod.splits sum.splits)
  from statement_tail_temps [of "snd ?j" ast "fst ?l" "fst ?j"] tj ok show ?thesis
    unfolding fin by (auto intro: tight_loose_trans tight_trans)
qed

lemma loose_from_start:
  assumes "loose b s'" and "quadruples b = []" and "temp_counter b = 0"
  shows "\<exists>m. m \<le> temp_counter s' \<and> temp_counter s' \<le> Suc m
           \<and> result_temps (quadruples s') = map (\<lambda>n. PStr (temp_name n)) [1..<Suc m]"
proof -
  from assms(1) consider "tight b s'" | sa where "tight b sa" "s' = snd (generate_temp sa)"
    by (auto simp: loose_def)
  then show ?thesis
  proof cases
    case 1
    then have "result_temps (quadruples s')
                 = map (\<lambda>n. PStr (temp_name n)) [1..<Suc (temp_counter s')]"
      using assms(2,3) by (simp add: tight_def result_temps_def del: upt_Suc)
    then show ?thesis by (intro exI [of _ "temp_counter s'"]) simp
  next
    case 2
    then have "result_temps (quadruples s')
                 = map (\<lambda>n. PStr (temp_name n)) [1..<Suc (temp_counter sa)]"
      using assms(2,3) by (simp add: tight_def result_temps_def generate_temp_eq del: upt_Suc)
    then show ?thesis
      using 2(2) by (intro exI [of _ "temp_counter sa"]) (simp add: generate_temp_eq)
  qed
qed

lemma tight_from_start:
  assumes "tight b s'" and "quadruples b = []" and "temp_counter b = 0"
  shows "result_temps (quadruples s') = map (\<lambda>n. PStr (temp_name n)) [1..<Suc (temp_counter s')]"
  using assms by (simp add: tight_def result_temps_def del: upt_Suc)

lemma buffer_temps:
  "result_temps (quadruples (snd (analyze ast s)))
     = map (\<lambda>n. PStr (temp_name n)) [1..<Suc (length (result_temps (quadruples (snd (analyze ast s)))))]"
  "length (result_temps (quadruples (snd (analyze ast s)))) \<le> temp_counter (snd (analyze ast s))"
  "temp_counter (snd (analyze ast s)) \<le> Suc (length (result_temps (quadruples (snd (analyze ast s)))))"
proof -
  from analyze_temps [of s ast] have "loose (reset s) (snd (analyze ast s))" by simp
  from loose_from_start [OF this] obtain m where
    m: "m \<le> temp_counter (snd (analyze ast s))" "temp_counter (snd (analyze ast s)) \<le> Suc m"
    and r: "result_temps (quadruples (snd (analyze ast s))) = map (\<lambda>n. PStr (temp_name n)) [1..<Suc m]"
    by (auto simp: reset_def)
  have l: "length (result_temps (quadruples (snd (analyze ast s)))) = m"
    by (simp add: r del: upt_Suc)
  show "result_temps (quadruples (snd (analyze ast s)))
     = map (\<lambda>n. PStr (temp_name n)) [1..<Suc (length (result_temps (quadruples (snd (analyze ast s)))))]"
    unfolding l by (rule r)
  show "length (result_temps (quadruples (snd (analyze ast s)))) \<le> temp_counter (snd (analyze ast s))"
    unfolding l by (rule m(1))
  show "temp_counter (snd (analyze ast s)) \<le> Suc (length (result_temps (quadruples (snd (analyze ast s)))))"
    unfolding l by (rule m(2))
qed

lemma completed_temps:
  assumes "snd (fst (analyze ast s)) = None"
  shows "fst (fst (analyze ast s)) = quadruples (snd (analyze ast s))"
    and "result_temps (fst (fst (analyze ast s)))
           = map (\<lambda>n. PStr (temp_name n)) [1..<Suc (temp_counter (snd (analyze ast s)))]"
proof -
  show eq: "fst (fst (analyze ast s)) = quadruples (snd (analyze ast s))"
    using analyze_ok_shape [OF assms] by simp
  from analyze_temps [of s ast] assms have "tight (reset s) (snd (analyze ast s))" by simp
  from tight_from_start [OF this] show "result_temps (fst (fst (analyze ast s)))
           = map (\<lambda>n. PStr (temp_name n)) [1..<Suc (temp_counter (snd (analyze ast s)))]"
    unfolding eq by (simp add: reset_def)
qed

lemma returned_temps:
  "result_temps (fst (fst (analyze ast s)))
     = map (\<lambda>n. PStr (temp_name n)) [1..<Suc (length (result_temps (fst (fst (analyze ast s)))))]"
proof (cases "snd (fst (analyze ast s)) = None")
  case True
  from completed_temps(1) [OF True] buffer_temps(1) [of ast s] show ?thesis by simp
next
  case False
  then have "fst (fst (analyze ast s)) = []" by (rule analyze_error_empty)
  then show ?thesis by (simp add: result_temps_def)
qed

section \<open>The claims\<close>

subsection \<open>C1\<close>

text \<open>
  C1. The claim is that a pass over a \<open>SELECT_STMT\<close> tree with a \<open>WHERE_CLAUSE\<close> child
  returns a list with a \<open>WHERE\<close> quadruple naming the temporary of the condition. On the
  tree of \<open>SELECT name FROM students WHERE age > 18\<close> the code returns the empty list
  and reports a \<open>TypeError\<close>: \<open>_analyze_condition\<close> calls \<open>_emit\<close> with five
  arguments, so neither a \<open>CONDITION\<close> nor a \<open>WHERE\<close> quadruple reaches the buffer, which
  holds \<open>BEGIN\<close> alone when the pass is abandoned.
\<close>

theorem where_condition_not_emitted:
  "fst (analyze query_where init) = ([], Some TypeError)
   \<and> quadruples (snd (analyze query_where init))
       = [\<lparr>op = PStr ''BEGIN'', arg1 = PNone, arg2 = PNone, result = PNone\<rparr>]"
  by (simp add: query_where_def run_simps)

subsection \<open>C2\<close>

text \<open>
  C2. The claim is that no pass over a \<open>SELECT_STMT\<close> tree fails, present WHERE and HAVING
  clauses included. On the tree of
  \<open>SELECT major, COUNT( * ) FROM students GROUP BY major HAVING COUNT( * ) > 5\<close> the code
  returns the empty list and reports a \<open>TypeError\<close>, raised by the call of \<open>_emit\<close>
  with five arguments in \<open>_analyze_condition\<close>.
\<close>

theorem having_aborts_pass:
  "fst (analyze query_having init) = ([], Some TypeError)"
  by (simp add: query_having_def run_simps)

subsection \<open>C3\<close>

text \<open>
  C3. For a tree whose root is not a \<open>SELECT_STMT\<close>, \<open>analyze\<close> returns the empty list
  and reports a \<open>SemanticError\<close> (message \<open>Unsupported statement type: ...\<close>); the
  exception is caught inside \<open>analyze\<close>, so the call returns normally. The buffer of the
  instance is empty as well.
\<close>

theorem analyze_unsupported_root:
  "ntype ast \<noteq> SELECT_STMT \<Longrightarrow>
     fst (analyze ast s)
       = ([], Some (SemanticError (''Unsupported statement type: '' @ type_str (ntype ast))))
     \<and> quadruples (snd (analyze ast s)) = []"
  by (simp add: analyze_unfold reset_def)

theorem analyze_unsupported_root_witness:
  "ntype (ASTNode WHERE_CLAUSE None []) \<noteq> SELECT_STMT
   \<and> fst (analyze (ASTNode WHERE_CLAUSE None []) init)
       = ([], Some (SemanticError ''Unsupported statement type: ASTNodeType.WHERE_CLAUSE''))"
  using analyze_unsupported_root [of "ASTNode WHERE_CLAUSE None []" init] by simp

subsection \<open>C4\<close>

text \<open>
  C4 as stated fails: for the column list \<open>*, name\<close> the column specification of the
  final \<open>SELECT\<close> is the list \<open>[name]\<close>. A column that follows the wildcard finds
  \<open>columns\<close> not to be a list and replaces it by a new one-element list.
\<close>

theorem wildcard_then_column_counterexample:
  "fst (analyze (ASTNode SELECT_STMT None
          [ASTNode COLUMN_LIST None
             [ASTNode IDENTIFIER (Some ''*'') [], ASTNode IDENTIFIER (Some ''name'') []],
           ASTNode TABLE_NAME (Some ''students'') []]) init)
     = ([\<lparr>op = PStr ''BEGIN'', arg1 = PNone, arg2 = PNone, result = PNone\<rparr>,
         \<lparr>op = PStr ''SELECT'', arg1 = PList [Some ''name''], arg2 = PStr ''students'', result = PStr ''T1''\<rparr>,
         \<lparr>op = PStr ''OUTPUT'', arg1 = PStr ''T1'', arg2 = PNone, result = PNone\<rparr>,
         \<lparr>op = PStr ''END'', arg1 = PNone, arg2 = PNone, result = PNone\<rparr>], None)"
  by (simp add: run_simps)

text \<open>
  C4, amended. When the pass over a \<open>SELECT_STMT\<close> tree completes and the column list
  (the first \<open>COLUMN_LIST\<close> child) holds an identifier \<open>*\<close> after which there is no
  aggregate function and no identifier other than \<open>*\<close>, the column specification of
  the final \<open>SELECT\<close> is exactly \<open>"*"\<close>, whatever columns and aggregate temporaries
  were collected before the wildcard.
\<close>

theorem wildcard_overrides_earlier_columns:
  assumes "ntype ast = SELECT_STMT"
    and "snd (fst (analyze ast s)) = None"
    and "select_columns ast = pre @ star # post"
    and "ntype star = IDENTIFIER" and "nvalue star = Some ''*''"
    and "\<forall>c\<in>set post. ntype c \<noteq> AGGREGATE_FUNCTION
           \<and> (ntype c = IDENTIFIER \<longrightarrow> nvalue c = Some ''*'')"
  shows "\<exists>mid tbl t. fst (fst (analyze ast s)) =
          \<lparr>op = PStr ''BEGIN'', arg1 = PNone, arg2 = PNone, result = PNone\<rparr> # mid @
          [\<lparr>op = PStr ''SELECT'', arg1 = PStr ''*'', arg2 = tbl, result = PStr t\<rparr>,
           \<lparr>op = PStr ''OUTPUT'', arg1 = PStr t, arg2 = PNone, result = PNone\<rparr>,
           \<lparr>op = PStr ''END'', arg1 = PNone, arg2 = PNone, result = PNone\<rparr>]"
proof -
  let ?s2 = "snd (analyze_from_clause ast (emit (PStr ''BEGIN'') PNone PNone PNone (reset s)))"
  let ?si0 = "\<lparr>columns = PList [], aggregates = [], has_aggregates = False\<rparr>"
  let ?p = "column_list_loop pre ?si0 ?s2"
  let ?body = "column_list_body star (fst ?p) (snd ?p)"
  have "columns (fst ?body) = PStr ''*''"
    using assms(4,5) by (simp add: column_list_body_def)
  from columns_wildcard_stays [OF assms(6) this, of "snd ?body"]
  have "columns (fst (analyze_select_list ast ?s2)) = PStr ''*''"
    by (simp add: select_list_split [OF assms(3)])
  with analyze_ok_shape [OF assms(2)] show ?thesis by auto
qed

text \<open>
  C4 amended, at the column list \<open>name, COUNT( * ), *, *\<close>.
\<close>

theorem wildcard_overrides_earlier_columns_witness:
  "fst (analyze (ASTNode SELECT_STMT None
          [ASTNode COLUMN_LIST None
             [ASTNode IDENTIFIER (Some ''name'') [], ASTNode AGGREGATE_FUNCTION (Some ''COUNT'') [],
              ASTNode IDENTIFIER (Some ''*'') [], ASTNode IDENTIFIER (Some ''*'') []],
           ASTNode TABLE_NAME (Some ''students'') []]) init)
     = ([\<lparr>op = PStr ''BEGIN'', arg1 = PNone, arg2 = PNone, result = PNone\<rparr>,
         \<lparr>op = PStr ''COUNT'', arg1 = PStr ''*'', arg2 = PNone, result = PStr ''T1''\<rparr>,
         \<lparr>op = PStr ''SELECT'', arg1 = PStr ''*'', arg2 = PStr ''students'', result = PStr ''T2''\<rparr>,
         \<lparr>op = PStr ''OUTPUT'', arg1 = PStr ''T2'', arg2 = PNone, result = PNone\<rparr>,
         \<lparr>op = PStr ''END'', arg1 = PNone, arg2 = PNone, result = PNone\<rparr>], None)
   \<and> (\<exists>mid tbl t. fst (fst (analyze (ASTNode SELECT_STMT None
          [ASTNode COLUMN_LIST None
             [ASTNode IDENTIFIER (Some ''name'') [], ASTNode AGGREGATE_FUNCTION (Some ''COUNT'') [],
              ASTNode IDENTIFIER (Some ''*'') [], ASTNode IDENTIFIER (Some ''*'') []],
           ASTNode TABLE_NAME (Some ''students'') []]) init)) =
          \<lparr>op = PStr ''BEGIN'', arg1 = PNone, arg2 = PNone, result = PNone\<rparr> # mid @
          [\<lparr>op = PStr ''SELECT'', arg1 = PStr ''*'', arg2 = tbl, result = PStr t\<rparr>,
           \<lparr>op = PStr ''OUTPUT'', arg1 = PStr t, arg2 = PNone, result = PNone\<rparr>,
           \<lparr>op = PStr ''END'', arg1 = PNone, arg2 = PNone, result = PNone\<rparr>])"
proof -
  let ?ast = "ASTNode SELECT_STMT None
          [ASTNode COLUMN_LIST None
             [ASTNode IDENTIFIER (Some ''name'') [], ASTNode AGGREGATE_FUNCTION (Some ''COUNT'') [],
              ASTNode IDENTIFIER (Some ''*'') [], ASTNode IDENTIFIER (Some ''*'') []],
           ASTNode TABLE_NAME (Some ''students'') []]"
  have e: "fst (analyze ?ast init)
     = ([\<lparr>op = PStr ''BEGIN'', arg1 = PNone, arg2 = PNone, result = PNone\<rparr>,
         \<lparr>op = PStr ''COUNT'', arg1 = PStr ''*'', arg2 = PNone, result = PStr ''T1''\<rparr>,
         \<lparr>op = PStr ''SELECT'', arg1 = PStr ''*'', arg2 = PStr ''students'', result = PStr ''T2''\<rparr>,
         \<lparr>op = PStr ''OUTPUT'', arg1 = PStr ''T2'', arg2 = PNone, result = PNone\<rparr>,
         \<lparr>op = PStr ''END'', arg1 = PNone, arg2 = PNone, result = PNone\<rparr>], None)"
    by (simp add: run_simps)
  have 1: "ntype ?ast = SELECT_STMT" by simp
  have 2: "snd (fst (analyze ?ast init)) = None" by (simp add: e)
  have 3: "select_columns ?ast =
             [ASTNode IDENTIFIER (Some ''name'') [], ASTNode AGGREGATE_FUNCTION (Some ''COUNT'') []]
             @ ASTNode IDENTIFIER (Some ''*'') [] # [ASTNode IDENTIFIER (Some ''*'') []]"
    by (simp add: select_columns_def)
  have 4: "ntype (ASTNode IDENTIFIER (Some ''*'') []) = IDENTIFIER"
    and 5: "nvalue (ASTNode IDENTIFIER (Some ''*'') []) = Some ''*''" by simp_all
  have 6: "\<forall>c\<in>set [ASTNode IDENTIFIER (Some ''*'') []]. ntype c \<noteq> AGGREGATE_FUNCTION
           \<and> (ntype c = IDENTIFIER \<longrightarrow> nvalue c = Some ''*'')" by simp
  from wildcard_overrides_earlier_columns [OF 1 2 3 4 5 6] e show ?thesis by blast
qed

subsection \<open>C5\<close>

text \<open>
  C5. The list and the report that \<open>analyze\<close> returns for a tree do not depend on the
  instance it is called on: two instances in any states \<open>s\<close> and \<open>s'\<close>, hence two new
  ones, give the same result, that of a new instance. The call behaves as on the
  instance with buffer and counters set back, and the label counter ends at 0. The
  numbering starts again at 1 in each call: \<open>_generate_temp\<close> returns \<open>T\<close> followed
  by the numeral of the counter it has just increased, the names handed out in the call
  are \<open>T1, T2, ...\<close> up to the final counter, and the temporaries in result position of
  the returned quadruples are \<open>T1, T2, ...\<close> in order of the list, whatever the
  counter of the instance was before the call. When the pass completes there is at
  least one of them and they run up to the final counter.
\<close>

theorem analyze_deterministic:
  "fst (analyze ast s) = fst (analyze ast s')
   \<and> fst (analyze ast s) = fst (analyze ast init)
   \<and> analyze ast s = analyze ast (s\<lparr>quadruples := [], temp_counter := 0, label_counter := 0\<rparr>)
   \<and> issued (snd (analyze ast s))
       = issued s @ map (\<lambda>n. ''T'' @ str_of_nat n) [1..<Suc (temp_counter (snd (analyze ast s)))]
   \<and> label_counter (snd (analyze ast s)) = 0
   \<and> fst (generate_temp u) = ''T'' @ str_of_nat (Suc (temp_counter u))
   \<and> issued (snd (generate_temp u)) = issued u @ [fst (generate_temp u)]
   \<and> result_temps (fst (fst (analyze ast s)))
       = map (\<lambda>n. PStr (''T'' @ str_of_nat n))
           [1..<Suc (length (result_temps (fst (fst (analyze ast s)))))]
   \<and> (snd (fst (analyze ast s)) = None \<longrightarrow>
         result_temps (fst (fst (analyze ast s)))
           = map (\<lambda>n. PStr (''T'' @ str_of_nat n)) [1..<Suc (temp_counter (snd (analyze ast s)))]
       \<and> 0 < temp_counter (snd (analyze ast s)))"
proof -
  have "fst (analyze ast s) = fst (analyze ast s')" "fst (analyze ast s) = fst (analyze ast init)"
    using core_analyze [of ast s s'] core_analyze [of ast s init] by simp_all
  moreover have "analyze ast s = analyze ast (s\<lparr>quadruples := [], temp_counter := 0, label_counter := 0\<rparr>)"
    using analyze_reset [of ast s] by (simp add: reset_def)
  moreover have "issued (snd (analyze ast s))
       = issued s @ map (\<lambda>n. ''T'' @ str_of_nat n) [1..<Suc (temp_counter (snd (analyze ast s)))]"
    using issued_analyze [of ast s] unfolding temp_name_def .
  moreover have "fst (generate_temp u) = ''T'' @ str_of_nat (Suc (temp_counter u))"
    "issued (snd (generate_temp u)) = issued u @ [fst (generate_temp u)]"
    by (simp_all add: generate_temp_eq temp_name_def)
  moreover have "result_temps (fst (fst (analyze ast s)))
       = map (\<lambda>n. PStr (''T'' @ str_of_nat n))
           [1..<Suc (length (result_temps (fst (fst (analyze ast s)))))]"
    using returned_temps [of ast s] unfolding temp_name_def .
  moreover have "result_temps (fst (fst (analyze ast s)))
           = map (\<lambda>n. PStr (''T'' @ str_of_nat n)) [1..<Suc (temp_counter (snd (analyze ast s)))]
       \<and> 0 < temp_counter (snd (analyze ast s))"
    if ok: "snd (fst (analyze ast s)) = None"
  proof -
    have r: "result_temps (fst (fst (analyze ast s)))
           = map (\<lambda>n. PStr (temp_name n)) [1..<Suc (temp_counter (snd (analyze ast s)))]"
      by (rule completed_temps(2) [OF ok])
    from analyze_ok_buffer [OF ok] have "result_temps (fst (fst (analyze ast s))) \<noteq> []"
      by (auto simp: result_temps_def temp_name_not_EQ)
    with r have "0 < temp_counter (snd (analyze ast s))"
      by (cases "temp_counter (snd (analyze ast s))") auto
    with r show ?thesis unfolding temp_name_def by simp
  qed
  ultimately show ?thesis
    using label_counter_analyze [of ast s] by blast
qed

text \<open>
  C5, on an instance that is used twice: after the pass over the tree of the JOIN query
  its counter is 2, and the pass over \<open>SELECT COUNT( * ), AVG(grade) FROM students\<close>
  returns the list of a new instance, numbered \<open>T1, T2, T3\<close>.
\<close>

theorem analyze_deterministic_witness:
  "temp_counter (snd (analyze query_join init)) = 2
   \<and> fst (analyze query_aggregates (snd (analyze query_join init)))
     = ([\<lparr>op = PStr ''BEGIN'', arg1 = PNone, arg2 = PNone, result = PNone\<rparr>,
         \<lparr>op = PStr ''COUNT'', arg1 = PStr ''*'', arg2 = PNone, result = PStr ''T1''\<rparr>,
         \<lparr>op = PStr ''AVG'', arg1 = PStr ''value'', arg2 = PNone, result = PStr ''T2''\<rparr>,
         \<lparr>op = PStr ''SELECT'', arg1 = PList [Some ''T1'', Some ''T2''], arg2 = PStr ''students'',
            result = PStr ''T3''\<rparr>,
         \<lparr>op = PStr ''OUTPUT'', arg1 = PStr ''T3'', arg2 = PNone, result = PNone\<rparr>,
         \<lparr>op = PStr ''END'', arg1 = PNone, arg2 = PNone, result = PNone\<rparr>], None)"
proof -
  have e: "fst (analyze query_aggregates init)
     = ([\<lparr>op = PStr ''BEGIN'', arg1 = PNone, arg2 = PNone, result = PNone\<rparr>,
         \<lparr>op = PStr ''COUNT'', arg1 = PStr ''*'', arg2 = PNone, result = PStr ''T1''\<rparr>,
         \<lparr>op = PStr ''AVG'', arg1 = PStr ''value'', arg2 = PNone, result = PStr ''T2''\<rparr>,
         \<lparr>op = PStr ''SELECT'', arg1 = PList [Some ''T1'', Some ''T2''], arg2 = PStr ''students'',
            result = PStr ''T3''\<rparr>,
         \<lparr>op = PStr ''OUTPUT'', arg1 = PStr ''T3'', arg2 = PNone, result = PNone\<rparr>,
         \<lparr>op = PStr ''END'', arg1 = PNone, arg2 = PNone, result = PNone\<rparr>], None)"
    by (simp add: query_aggregates_def run_simps)
  have k: "temp_counter (snd (analyze query_join init)) = 2"
    by (simp add: query_join_def run_simps)
  from analyze_deterministic [of query_aggregates "snd (analyze query_join init)" init init]
  have "fst (analyze query_aggregates (snd (analyze query_join init)))
          = fst (analyze query_aggregates init)"
    by blast
  with e k show ?thesis by simp
qed

subsection \<open>C6\<close>

text \<open>
  C6. When \<open>analyze\<close> returns a non-empty list for a \<open>SELECT_STMT\<close> tree, the list is
  \<open>BEGIN\<close>, then any quadruples of the clauses, then \<open>SELECT\<close>, \<open>OUTPUT\<close>, \<open>END\<close>:
  \<open>BEGIN\<close> is first, \<open>END\<close> is last, and \<open>SELECT\<close> and \<open>OUTPUT\<close> (which names the
  temporary of the \<open>SELECT\<close>) are, in that order, the two quadruples before \<open>END\<close>.
\<close>

theorem begin_first_end_last:
  assumes "ntype ast = SELECT_STMT" and "fst (fst (analyze ast s)) \<noteq> []"
  shows "\<exists>mid cols tbl t. fst (fst (analyze ast s)) =
          \<lparr>op = PStr ''BEGIN'', arg1 = PNone, arg2 = PNone, result = PNone\<rparr> # mid @
          [\<lparr>op = PStr ''SELECT'', arg1 = cols, arg2 = tbl, result = PStr t\<rparr>,
           \<lparr>op = PStr ''OUTPUT'', arg1 = PStr t, arg2 = PNone, result = PNone\<rparr>,
           \<lparr>op = PStr ''END'', arg1 = PNone, arg2 = PNone, result = PNone\<rparr>]"
proof -
  have "snd (fst (analyze ast s)) = None"
    using assms(2) analyze_error_empty [of ast s] by blast
  from analyze_ok_shape [OF this] show ?thesis by blast
qed

text \<open>
  C6, at \<open>SELECT name FROM students\<close> on a new instance.
\<close>

theorem begin_first_end_last_witness:
  "ntype query_name = SELECT_STMT \<and> fst (fst (analyze query_name init)) \<noteq> []
   \<and> (\<exists>mid cols tbl t. fst (fst (analyze query_name init)) =
          \<lparr>op = PStr ''BEGIN'', arg1 = PNone, arg2 = PNone, result = PNone\<rparr> # mid @
          [\<lparr>op = PStr ''SELECT'', arg1 = cols, arg2 = tbl, result = PStr t\<rparr>,
           \<lparr>op = PStr ''OUTPUT'', arg1 = PStr t, arg2 = PNone, result = PNone\<rparr>,
           \<lparr>op = PStr ''END'', arg1 = PNone, arg2 = PNone, result = PNone\<rparr>])"
proof -
  have 1: "ntype query_name = SELECT_STMT" by (simp add: query_name_def)
  have 2: "fst (fst (analyze query_name init)) \<noteq> []" by (simp add: analyze_query_name)
  from begin_first_end_last [OF 1 2] 1 2 show ?thesis by blast
qed

subsection \<open>C7\<close>

text \<open>
  C7. \<open>_generate_temp\<close> increases the counter by one, returns the letter \<open>T\<close> followed
  by the decimal numeral of the new counter, and that is the name the history \<open>issued\<close>
  records; names of different numbers are different. Within one call of \<open>analyze\<close>,
  which sets the counter back to 0, the temporaries handed out are therefore, in the
  order of their generation, \<open>T1, T2, ..., Tk\<close> with \<open>k\<close> the final counter: their
  numbers start at 1 and increase strictly, and the names are pairwise distinct, for
  every tree and every instance state, whether or not the pass completes. The same is
  true of the quadruples: the temporaries in result position of the buffer are, in the
  order of the buffer, \<open>T1, ..., Tm\<close>, where \<open>m\<close> is \<open>k\<close> or \<open>k - 1\<close> (the last name
  taken is not emitted when the routine that took it raises); when the pass completes,
  the returned list is the buffer, \<open>m = k\<close>, and these temporaries are pairwise
  distinct.
\<close>

theorem temporaries_distinct_increasing:
  "(\<exists>k. issued (snd (analyze ast s)) = issued s @ map (\<lambda>n. ''T'' @ str_of_nat n) [1..<Suc k]
       \<and> distinct (map (\<lambda>n. ''T'' @ str_of_nat n) [1..<Suc k])
       \<and> temp_counter (snd (analyze ast s)) = k)
   \<and> fst (generate_temp u) = ''T'' @ str_of_nat (Suc (temp_counter u))
   \<and> temp_counter (snd (generate_temp u)) = Suc (temp_counter u)
   \<and> issued (snd (generate_temp u)) = issued u @ [fst (generate_temp u)]
   \<and> (''T'' @ str_of_nat m = ''T'' @ str_of_nat n \<longleftrightarrow> m = n)
   \<and> result_temps (quadruples (snd (analyze ast s)))
       = map (\<lambda>n. PStr (''T'' @ str_of_nat n))
           [1..<Suc (length (result_temps (quadruples (snd (analyze ast s)))))]
   \<and> length (result_temps (quadruples (snd (analyze ast s)))) \<le> temp_counter (snd (analyze ast s))
   \<and> temp_counter (snd (analyze ast s)) \<le> Suc (length (result_temps (quadruples (snd (analyze ast s)))))
   \<and> (snd (fst (analyze ast s)) = None \<longrightarrow>
         fst (fst (analyze ast s)) = quadruples (snd (analyze ast s))
       \<and> result_temps (fst (fst (analyze ast s)))
           = map (\<lambda>n. PStr (''T'' @ str_of_nat n)) [1..<Suc (temp_counter (snd (analyze ast s)))]
       \<and> distinct (result_temps (fst (fst (analyze ast s)))))"
proof -
  have 1: "\<exists>k. issued (snd (analyze ast s)) = issued s @ map (\<lambda>n. ''T'' @ str_of_nat n) [1..<Suc k]
       \<and> distinct (map (\<lambda>n. ''T'' @ str_of_nat n) [1..<Suc k])
       \<and> temp_counter (snd (analyze ast s)) = k"
    using issued_analyze [of ast s] distinct_temp_names [of 1]
    unfolding temp_name_def by blast
  have 2: "fst (generate_temp u) = ''T'' @ str_of_nat (Suc (temp_counter u))"
    "temp_counter (snd (generate_temp u)) = Suc (temp_counter u)"
    "issued (snd (generate_temp u)) = issued u @ [fst (generate_temp u)]"
    by (simp_all add: generate_temp_eq temp_name_def)
  have 3: "''T'' @ str_of_nat m = ''T'' @ str_of_nat n \<longleftrightarrow> m = n"
    using str_of_nat_inj [of m n] by auto
  have inj: "inj (\<lambda>n. PStr (temp_name n))"
    by (rule injI) (simp add: inj_eq [OF temp_name_inj])
  have 5: "distinct (result_temps (fst (fst (analyze ast s))))"
    if "snd (fst (analyze ast s)) = None"
    unfolding completed_temps(2) [OF that]
    by (simp add: distinct_map inj_on_subset [OF inj] del: upt_Suc)
  show ?thesis
    using 1 2 3 5 buffer_temps [of ast s] completed_temps [of ast s]
    unfolding temp_name_def by simp
qed

text \<open>
  C7, at \<open>SELECT COUNT( * ), AVG(grade) FROM students\<close> on a new instance.
\<close>

theorem temporaries_distinct_increasing_witness:
  "snd (fst (analyze query_aggregates init)) = None
   \<and> issued (snd (analyze query_aggregates init)) = [''T1'', ''T2'', ''T3'']
   \<and> result_temps (fst (fst (analyze query_aggregates init)))
       = [PStr ''T1'', PStr ''T2'', PStr ''T3'']
   \<and> distinct (result_temps (fst (fst (analyze query_aggregates init))))"
proof -
  have ok: "snd (fst (analyze query_aggregates init)) = None"
    by (simp add: query_aggregates_def run_simps)
  have k: "temp_counter (snd (analyze query_aggregates init)) = 3"
    and i: "issued init = []"
    by (simp_all add: query_aggregates_def run_simps)
  note th = temporaries_distinct_increasing [of query_aggregates init init 1 1]
  from th ok have r: "result_temps (fst (fst (analyze query_aggregates init)))
      = map (\<lambda>n. PStr (''T'' @ str_of_nat n))
          [1..<Suc (temp_counter (snd (analyze query_aggregates init)))]"
    and d: "distinct (result_temps (fst (fst (analyze query_aggregates init))))"
    by blast+
  from th have "issued (snd (analyze query_aggregates init))
      = issued init @ map (\<lambda>n. ''T'' @ str_of_nat n)
          [1..<Suc (temp_counter (snd (analyze query_aggregates init)))]"
    by blast
  then have n: "issued (snd (analyze query_aggregates init)) = [''T1'', ''T2'', ''T3'']"
    by (simp add: k i str_of_nat_small digit_char_def upt_rec numeral_3_eq_3)
  have "result_temps (fst (fst (analyze query_aggregates init)))
       = [PStr ''T1'', PStr ''T2'', PStr ''T3'']"
    unfolding r by (simp add: k str_of_nat_small digit_char_def upt_rec numeral_3_eq_3)
  with ok n d show ?thesis by simp
qed

subsection \<open>C8\<close>

text \<open>
  C8. Let \<open>c\<close> be an \<open>AGGREGATE_FUNCTION\<close> child of the column list that the pass
  analyses (the first \<open>COLUMN_LIST\<close> child of the root), with \<open>n\<close> aggregate functions
  before it. Then \<open>c\<close> receives the temporary \<open>T(n+1)\<close>, the \<open>(n+1)\<close>-th name handed
  out in the pass, and the buffer holds at index \<open>n+1\<close> (index 0 is \<open>BEGIN\<close>) the
  quadruple \<open>(COUNT, "*", None, T(n+1))\<close> when the value of \<open>c\<close> is \<open>COUNT\<close>, and
  \<open>(value of c, "value", None, T(n+1))\<close> otherwise. This holds for the buffer of the
  instance even when a later clause abandons the pass. When \<open>c\<close> has been processed
  the column list ends with \<open>T(n+1)\<close>. When the pass completes, the returned list is
  the buffer, the aggregate quadruple stands before the final \<open>SELECT\<close> (third from the
  end), and the column specification of that \<open>SELECT\<close> is a list that contains
  \<open>T(n+1)\<close>, unless a wildcard identifier follows \<open>c\<close> in the column list.
\<close>

theorem aggregate_quadruple:
  assumes "ntype ast = SELECT_STMT"
    and "select_columns ast = pre @ c # post"
    and "ntype c = AGGREGATE_FUNCTION"
  shows "let n = length (filter is_agg pre);
             t = ''T'' @ str_of_nat (Suc n);
             buf = quadruples (snd (analyze ast s))
         in Suc n < length buf
          \<and> buf ! Suc n =
               \<lparr>op = of_opt (nvalue c),
                arg1 = PStr (if nvalue c = Some ''COUNT'' then ''*'' else ''value''),
                arg2 = PNone, result = PStr t\<rparr>
          \<and> issued (snd (analyze ast s)) ! (length (issued s) + n) = t
          \<and> (\<exists>xs. columns (fst (column_list_loop (pre @ [c])
                          \<lparr>columns = PList [], aggregates = [], has_aggregates = False\<rparr>
                          (snd (analyze_from_clause ast
                             (emit (PStr ''BEGIN'') PNone PNone PNone (reset s))))))
                    = PList (xs @ [Some t]))
          \<and> (snd (fst (analyze ast s)) = None \<longrightarrow>
                fst (fst (analyze ast s)) = buf
              \<and> Suc n < length buf - 3
              \<and> op (buf ! (length buf - 3)) = PStr ''SELECT''
              \<and> ((\<forall>x\<in>set post. \<not> is_wildcard x) \<longrightarrow>
                    (\<exists>xs ys. arg1 (buf ! (length buf - 3)) = PList (xs @ Some t # ys))))"
proof -
  let ?b = "emit (PStr ''BEGIN'') PNone PNone PNone (reset s)"
  let ?s2 = "snd (analyze_from_clause ast ?b)"
  let ?si0 = "\<lparr>columns = PList [], aggregates = [], has_aggregates = False\<rparr>"
  let ?p = "column_list_loop pre ?si0 ?s2"
  let ?body = "column_list_body c (fst ?p) (snd ?p)"
  let ?l = "analyze_select_list ast ?s2"
  let ?n = "length (filter is_agg pre)"
  let ?t = "temp_name (Suc ?n)"
  let ?q = "\<lparr>op = of_opt (nvalue c),
             arg1 = PStr (if nvalue c = Some ''COUNT'' then ''*'' else ''value''),
             arg2 = PNone, result = PStr ?t\<rparr>"
  let ?fin = "snd (analyze ast s)"
  let ?buf = "quadruples ?fin"
  have l: "?l = column_list_loop post (fst ?body) (snd ?body)"
    by (rule select_list_split [OF assms(2)])
  have cnt: "temp_counter (snd ?p) = ?n" "length (quadruples (snd ?p)) = Suc ?n"
    by (simp_all add: column_list_loop_count select_list_state)
  have qb: "quadruples (snd ?body) = quadruples (snd ?p) @ [?q]"
    using column_list_body_agg(1) [OF assms(3), of "fst ?p" "snd ?p"] by (simp add: cnt)
  have cb: "columns (fst ?body) = add_column (columns (fst ?p)) (Some ?t)"
    using column_list_body_agg(2) [OF assms(3), of "fst ?p" "snd ?p"] by (simp add: cnt)
  have tb: "temp_counter (snd ?body) = Suc ?n"
    using column_list_body_count(1) [of c "fst ?p" "snd ?p"] assms(3)
    by (simp add: cnt is_agg_def)
  have gl: "grows (snd ?body) (snd ?l)"
    unfolding l by (rule grows_column_list_loop)
  have gfin: "grows (snd ?body) ?fin"
    by (rule grows_trans [OF gl grows_after_select_list [OF assms(1)]])
  then have pre: "prefix (quadruples (snd ?body)) ?buf" and k: "Suc ?n \<le> temp_counter ?fin"
    by (simp_all add: grows_def tb)
  have len: "Suc ?n < length (quadruples (snd ?body))"
    by (simp add: qb cnt)
  have 1: "Suc ?n < length ?buf"
    using pre len by (auto simp: prefix_def)
  have 2: "?buf ! Suc ?n = ?q"
    using prefix_nth [OF pre len] by (simp add: qb nth_append cnt)
  have 3: "issued ?fin ! (length (issued s) + ?n) = ?t"
    using k by (simp add: issued_analyze nth_append del: upt_Suc)
  have 4: "fst (fst (analyze ast s)) = ?buf \<and> Suc ?n < length ?buf - 3
           \<and> op (?buf ! (length ?buf - 3)) = PStr ''SELECT''
           \<and> ((\<forall>x\<in>set post. \<not> is_wildcard x) \<longrightarrow>
                    (\<exists>xs ys. arg1 (?buf ! (length ?buf - 3)) = PList (xs @ Some ?t # ys)))"
    if ok: "snd (fst (analyze ast s)) = None"
  proof -
    from analyze_ok_buffer [OF ok] obtain s8 where
      g8: "grows (snd ?l) s8" and
      r: "fst (fst (analyze ast s)) = quadruples s8 @
          [\<lparr>op = PStr ''SELECT'', arg1 = columns (fst ?l),
            arg2 = of_opt (main_table (fst (analyze_from_clause ast ?b))),
            result = PStr (temp_name (Suc (temp_counter s8)))\<rparr>,
           \<lparr>op = PStr ''OUTPUT'', arg1 = PStr (temp_name (Suc (temp_counter s8))), arg2 = PNone, result = PNone\<rparr>,
           \<lparr>op = PStr ''END'', arg1 = PNone, arg2 = PNone, result = PNone\<rparr>]"
      by blast
    have eq: "fst (fst (analyze ast s)) = ?buf"
      using analyze_ok_shape [OF ok] by simp
    have "prefix (quadruples (snd ?body)) (quadruples s8)"
      using grows_trans [OF gl g8] by (simp add: grows_def)
    then have l8: "Suc ?n < length (quadruples s8)"
      using len by (auto simp: prefix_def)
    have sel: "?buf ! (length ?buf - 3) =
          \<lparr>op = PStr ''SELECT'', arg1 = columns (fst ?l),
            arg2 = of_opt (main_table (fst (analyze_from_clause ast ?b))),
            result = PStr (temp_name (Suc (temp_counter s8)))\<rparr>"
      unfolding eq [symmetric] r by (simp add: nth_append)
    have cols: "\<exists>xs ys. columns (fst ?l) = PList (xs @ Some ?t # ys)"
      if nw: "\<forall>x\<in>set post. \<not> is_wildcard x"
    proof -
      obtain xs where xs: "columns (fst ?body) = PList (xs @ [Some ?t])"
        using add_column_list [of "columns (fst ?p)" "Some ?t"] cb by auto
      from columns_keep_prefix [OF nw xs, of "snd ?body"] show ?thesis
        unfolding l by auto
    qed
    show ?thesis
      using l8 cols by (simp add: sel) (simp add: eq [symmetric] r)
  qed
  have 5: "\<exists>xs. columns (fst (column_list_loop (pre @ [c]) ?si0 ?s2)) = PList (xs @ [Some ?t])"
    using add_column_list [of "columns (fst ?p)" "Some ?t"]
    by (simp add: column_list_loop_append case_prod_unfold cb)
  show ?thesis
    unfolding Let_def using 1 2 3 4 5 by (simp add: temp_name_def)
qed

text \<open>
  C8, at \<open>SELECT COUNT( * ), AVG(grade) FROM students\<close> on a new instance, for the
  \<open>AVG\<close> node: the list is the one of the specification's second scenario.
\<close>

theorem aggregate_quadruple_witness:
  "quadruples (snd (analyze query_aggregates init)) ! 2
     = \<lparr>op = PStr ''AVG'', arg1 = PStr ''value'', arg2 = PNone, result = PStr ''T2''\<rparr>
   \<and> issued (snd (analyze query_aggregates init)) ! 1 = ''T2''
   \<and> fst (analyze query_aggregates init)
     = ([\<lparr>op = PStr ''BEGIN'', arg1 = PNone, arg2 = PNone, result = PNone\<rparr>,
         \<lparr>op = PStr ''COUNT'', arg1 = PStr ''*'', arg2 = PNone, result = PStr ''T1''\<rparr>,
         \<lparr>op = PStr ''AVG'', arg1 = PStr ''value'', arg2 = PNone, result = PStr ''T2''\<rparr>,
         \<lparr>op = PStr ''SELECT'', arg1 = PList [Some ''T1'', Some ''T2''], arg2 = PStr ''students'',
            result = PStr ''T3''\<rparr>,
         \<lparr>op = PStr ''OUTPUT'', arg1 = PStr ''T3'', arg2 = PNone, result = PNone\<rparr>,
         \<lparr>op = PStr ''END'', arg1 = PNone, arg2 = PNone, result = PNone\<rparr>], None)"
proof -
  let ?count = "ASTNode AGGREGATE_FUNCTION (Some ''COUNT'') [ASTNode IDENTIFIER (Some ''*'') []]"
  let ?avg = "ASTNode AGGREGATE_FUNCTION (Some ''AVG'') [ASTNode IDENTIFIER (Some ''grade'') []]"
  have 1: "ntype query_aggregates = SELECT_STMT" by (simp add: query_aggregates_def)
  have 2: "select_columns query_aggregates = [?count] @ ?avg # []"
    by (simp add: query_aggregates_def select_columns_def)
  have 3: "ntype ?avg = AGGREGATE_FUNCTION" by simp
  have e: "fst (analyze query_aggregates init)
     = ([\<lparr>op = PStr ''BEGIN'', arg1 = PNone, arg2 = PNone, result = PNone\<rparr>,
         \<lparr>op = PStr ''COUNT'', arg1 = PStr ''*'', arg2 = PNone, result = PStr ''T1''\<rparr>,
         \<lparr>op = PStr ''AVG'', arg1 = PStr ''value'', arg2 = PNone, result = PStr ''T2''\<rparr>,
         \<lparr>op = PStr ''SELECT'', arg1 = PList [Some ''T1'', Some ''T2''], arg2 = PStr ''students'',
            result = PStr ''T3''\<rparr>,
         \<lparr>op = PStr ''OUTPUT'', arg1 = PStr ''T3'', arg2 = PNone, result = PNone\<rparr>,
         \<lparr>op = PStr ''END'', arg1 = PNone, arg2 = PNone, result = PNone\<rparr>], None)"
    by (simp add: query_aggregates_def run_simps)
  from aggregate_quadruple [OF 1 2 3, of init]
  have "quadruples (snd (analyze query_aggregates init)) ! 2
     = \<lparr>op = PStr ''AVG'', arg1 = PStr ''value'', arg2 = PNone, result = PStr ''T2''\<rparr>
   \<and> issued (snd (analyze query_aggregates init)) ! 1 = ''T2''"
    by (simp add: Let_def is_agg_def str_of_nat_small digit_char_def init_def numeral_2_eq_2)
  with e show ?thesis by simp
qed

subsection \<open>C9\<close>

text \<open>
  C9 as stated fails: the \<open>JOIN_CLAUSE\<close> below has a \<open>TABLE_NAME\<close> child and an
  \<open>ON_CLAUSE\<close> child, the name of the table is the empty string, and the pass emits
  neither \<open>JOIN\<close> nor \<open>ON\<close>: the test \<open>if join_table and join_condition\<close> is one of
  truth values.
\<close>

theorem join_unnamed_table_counterexample:
  "fst (analyze (ASTNode SELECT_STMT None
          [ASTNode COLUMN_LIST None [ASTNode IDENTIFIER (Some ''name'') []],
           ASTNode TABLE_NAME (Some ''students'') [],
           ASTNode JOIN_CLAUSE None
             [ASTNode TABLE_NAME (Some '''') [],
              ASTNode ON_CLAUSE None [ASTNode CONDITION (Some ''='') []]]]) init)
     = ([\<lparr>op = PStr ''BEGIN'', arg1 = PNone, arg2 = PNone, result = PNone\<rparr>,
         \<lparr>op = PStr ''SELECT'', arg1 = PList [Some ''name''], arg2 = PStr ''students'',
            result = PStr ''T1''\<rparr>,
         \<lparr>op = PStr ''OUTPUT'', arg1 = PStr ''T1'', arg2 = PNone, result = PNone\<rparr>,
         \<lparr>op = PStr ''END'', arg1 = PNone, arg2 = PNone, result = PNone\<rparr>], None)"
  by (simp add: run_simps)

text \<open>
  C9, amended. Let \<open>j\<close> be a \<open>JOIN_CLAUSE\<close> child of a \<open>SELECT_STMT\<close> root, and
  \<open>p\<close> the table info and state in which the pass reaches it (after \<open>BEGIN\<close>, FROM,
  the select list and the JOIN clauses before \<open>j\<close>). The joined table is the value of
  the last \<open>TABLE_NAME\<close> child of \<open>j\<close>. If that value is a non-empty string and
  \<open>j\<close> has an \<open>ON_CLAUSE\<close> child, \<open>_analyze_join_clause\<close> appends to the buffer
  \<open>(JOIN, main table, joined table, t)\<close> immediately followed by
  \<open>(ON, table1.id, table2.id, EQ)\<close>, where the main table is that of the FROM clause
  and \<open>t\<close> is a temporary not handed out before in the pass; otherwise (no
  \<open>TABLE_NAME\<close> child, a last one without a name or with the empty name, or no
  \<open>ON_CLAUSE\<close> child) it appends nothing and takes no temporary. What the routine
  leaves in the buffer is an initial segment of the buffer at the end of the pass.
\<close>

theorem join_then_on:
  assumes "ntype ast = SELECT_STMT"
    and "children ast = pre @ j # post"
    and "ntype j = JOIN_CLAUSE"
  shows "let b = emit (PStr ''BEGIN'') PNone PNone PNone
                   (s\<lparr>quadruples := [], temp_counter := 0, label_counter := 0\<rparr>);
             f = analyze_from_clause ast b;
             l = analyze_select_list ast (snd f);
             p = join_clauses_loop pre (fst f) (snd l);
             r = analyze_join_clause j (fst p) (snd p);
             t = ''T'' @ str_of_nat (Suc (temp_counter (snd p)));
             emits = (truthy (join_table_of j) \<and> has_on_clause j)
         in main_table (fst p) = main_table (fst f)
          \<and> quadruples (snd r) = quadruples (snd p) @
               (if emits then
                  [\<lparr>op = PStr ''JOIN'', arg1 = of_opt (main_table (fst f)),
                    arg2 = of_opt (join_table_of j), result = PStr t\<rparr>,
                   \<lparr>op = PStr ''ON'', arg1 = PStr ''table1.id'', arg2 = PStr ''table2.id'',
                    result = PStr ''EQ''\<rparr>]
                else [])
          \<and> issued (snd r) = issued (snd p) @ (if emits then [t] else [])
          \<and> t \<notin> set (drop (length (issued s)) (issued (snd p)))
          \<and> prefix (quadruples (snd r)) (quadruples (snd (analyze ast s)))"
proof -
  let ?b = "emit (PStr ''BEGIN'') PNone PNone PNone (reset s)"
  let ?f = "analyze_from_clause ast ?b"
  let ?l = "analyze_select_list ast (snd ?f)"
  let ?p = "join_clauses_loop pre (fst ?f) (snd ?l)"
  let ?r = "analyze_join_clause j (fst ?p) (snd ?p)"
  let ?t = "temp_name (Suc (temp_counter (snd ?p)))"
  let ?emits = "truthy (join_table_of j) \<and> has_on_clause j"
  let ?jn = "analyze_join_clauses ast (fst ?f) (snd ?l)"
  have 1: "main_table (fst ?p) = main_table (fst ?f)"
    by (rule main_table_join_clauses_loop)
  have 2: "quadruples (snd ?r) = quadruples (snd ?p) @
               (if ?emits then
                  [\<lparr>op = PStr ''JOIN'', arg1 = of_opt (main_table (fst ?f)),
                    arg2 = of_opt (join_table_of j), result = PStr ?t\<rparr>,
                   \<lparr>op = PStr ''ON'', arg1 = PStr ''table1.id'', arg2 = PStr ''table2.id'',
                    result = PStr ''EQ''\<rparr>]
                else [])"
    by (simp add: analyze_join_clause_effect generate_temp_eq 1)
  have 3: "issued (snd ?r) = issued (snd ?p) @ (if ?emits then [?t] else [])"
    by (simp add: analyze_join_clause_effect generate_temp_eq)
  have "grows ?b (snd ?f)"
    unfolding analyze_from_clause_def by (rule grows_from_clause_loop)
  moreover have "grows (snd ?f) (snd ?l)"
    unfolding analyze_select_list_def by (rule grows_select_list_loop)
  moreover have "grows (snd ?l) (snd ?p)"
    by (rule grows_join_clauses_loop)
  ultimately have "grows ?b (snd ?p)"
    by (blast intro: grows_trans)
  then have iss: "issued (snd ?p) = issued s @ map temp_name [1..<Suc (temp_counter (snd ?p))]"
    by (simp add: grows_def reset_def del: upt_Suc)
  have 4: "?t \<notin> set (drop (length (issued s)) (issued (snd ?p)))"
    by (simp add: iss inj_eq [OF temp_name_inj] image_iff del: upt_Suc)
  have jn: "?jn = join_clauses_loop post (fst ?r) (snd ?r)"
    using assms(3)
    by (simp add: analyze_join_clauses_def assms(2) join_clauses_loop_append case_prod_unfold)
  have "grows (snd ?r) (snd ?jn)"
    unfolding jn by (rule grows_join_clauses_loop)
  from grows_trans [OF this grows_statement_tail]
  have "grows (snd ?r) (snd (analyze ast s))"
    using assms(1) by (simp add: snd_analyze analyze_select_statement_tail Let_def)
  then have 5: "prefix (quadruples (snd ?r)) (quadruples (snd (analyze ast s)))"
    by (simp add: grows_def)
  show ?thesis
    unfolding Let_def using 1 2 3 4 5
    by (simp add: temp_name_def reset_def)
qed

text \<open>
  C9 amended, at \<open>SELECT name FROM students INNER JOIN courses ON ...\<close>.
\<close>

theorem join_then_on_witness:
  "prefix
     [\<lparr>op = PStr ''BEGIN'', arg1 = PNone, arg2 = PNone, result = PNone\<rparr>,
      \<lparr>op = PStr ''JOIN'', arg1 = PStr ''students'', arg2 = PStr ''courses'', result = PStr ''T1''\<rparr>,
      \<lparr>op = PStr ''ON'', arg1 = PStr ''table1.id'', arg2 = PStr ''table2.id'', result = PStr ''EQ''\<rparr>]
     (quadruples (snd (analyze query_join init)))
   \<and> fst (analyze query_join init)
     = ([\<lparr>op = PStr ''BEGIN'', arg1 = PNone, arg2 = PNone, result = PNone\<rparr>,
         \<lparr>op = PStr ''JOIN'', arg1 = PStr ''students'', arg2 = PStr ''courses'', result = PStr ''T1''\<rparr>,
         \<lparr>op = PStr ''ON'', arg1 = PStr ''table1.id'', arg2 = PStr ''table2.id'', result = PStr ''EQ''\<rparr>,
         \<lparr>op = PStr ''SELECT'', arg1 = PList [Some ''name''], arg2 = PStr ''students'',
            result = PStr ''T2''\<rparr>,
         \<lparr>op = PStr ''OUTPUT'', arg1 = PStr ''T2'', arg2 = PNone, result = PNone\<rparr>,
         \<lparr>op = PStr ''END'', arg1 = PNone, arg2 = PNone, result = PNone\<rparr>], None)"
proof -
  let ?j = "ASTNode JOIN_CLAUSE None
        [ASTNode JOIN_TYPE (Some ''INNER'') [],
         ASTNode TABLE_NAME (Some ''courses'') [],
         ASTNode ON_CLAUSE None [ASTNode CONDITION (Some ''='') []]]"
  have 1: "ntype query_join = SELECT_STMT" by (simp add: query_join_def)
  have 2: "children query_join =
             [ASTNode COLUMN_LIST None [ASTNode IDENTIFIER (Some ''name'') []],
              ASTNode TABLE_NAME (Some ''students'') []] @ ?j # []"
    by (simp add: query_join_def)
  have 3: "ntype ?j = JOIN_CLAUSE" by simp
  have e: "fst (analyze query_join init)
     = ([\<lparr>op = PStr ''BEGIN'', arg1 = PNone, arg2 = PNone, result = PNone\<rparr>,
         \<lparr>op = PStr ''JOIN'', arg1 = PStr ''students'', arg2 = PStr ''courses'', result = PStr ''T1''\<rparr>,
         \<lparr>op = PStr ''ON'', arg1 = PStr ''table1.id'', arg2 = PStr ''table2.id'', result = PStr ''EQ''\<rparr>,
         \<lparr>op = PStr ''SELECT'', arg1 = PList [Some ''name''], arg2 = PStr ''students'',
            result = PStr ''T2''\<rparr>,
         \<lparr>op = PStr ''OUTPUT'', arg1 = PStr ''T2'', arg2 = PNone, result = PNone\<rparr>,
         \<lparr>op = PStr ''END'', arg1 = PNone, arg2 = PNone, result = PNone\<rparr>], None)"
    by (simp add: query_join_def run_simps)
  from join_then_on [OF 1 2 3, of init]
  have "prefix
     [\<lparr>op = PStr ''BEGIN'', arg1 = PNone, arg2 = PNone, result = PNone\<rparr>,
      \<lparr>op = PStr ''JOIN'', arg1 = PStr ''students'', arg2 = PStr ''courses'', result = PStr ''T1''\<rparr>,
      \<lparr>op = PStr ''ON'', arg1 = PStr ''table1.id'', arg2 = PStr ''table2.id'', result = PStr ''EQ''\<rparr>]
     (quadruples (snd (analyze query_join init)))"
    by (simp add: query_join_def run_simps join_table_of_def has_on_clause_def)
  with e show ?thesis by simp
qed

subsection \<open>C10\<close>

text \<open>
  C10 as stated fails: the tree below has no \<open>TABLE_NAME\<close>, \<open>WHERE_CLAUSE\<close> or
  \<open>HAVING_CLAUSE\<close> child, and the pass is abandoned with a \<open>TypeError\<close>, because
  \<open>','.join\<close> meets the value \<open>None\<close> of the identifier under GROUP BY.
\<close>

theorem group_by_unnamed_counterexample:
  "fst (analyze (ASTNode SELECT_STMT None
          [ASTNode COLUMN_LIST None [ASTNode IDENTIFIER (Some ''major'') []],
           ASTNode GROUP_BY_CLAUSE None [ASTNode IDENTIFIER None []]]) init)
     = ([], Some TypeError)"
  by (simp add: run_simps)

text \<open>
  C10, amended. For a \<open>SELECT_STMT\<close> tree without \<open>TABLE_NAME\<close>, \<open>WHERE_CLAUSE\<close> and
  \<open>HAVING_CLAUSE\<close> children, in which every \<open>IDENTIFIER\<close> under a \<open>GROUP_BY_CLAUSE\<close>
  child carries a name (its value is not \<open>None\<close>), \<open>analyze\<close> completes without error,
  the returned list ends in \<open>SELECT\<close>, \<open>OUTPUT\<close>, \<open>END\<close> with \<open>arg2 = None\<close> in the
  \<open>SELECT\<close>, and the symbol table of the instance is left as it was: a missing FROM is
  not detected.
\<close>

theorem missing_from_not_detected:
  assumes "ntype ast = SELECT_STMT"
    and "\<forall>c\<in>set (children ast).
           ntype c \<noteq> TABLE_NAME \<and> ntype c \<noteq> WHERE_CLAUSE \<and> ntype c \<noteq> HAVING_CLAUSE"
    and "\<forall>c\<in>set (children ast). ntype c = GROUP_BY_CLAUSE \<longrightarrow>
           (\<forall>g\<in>set (children c). ntype g = IDENTIFIER \<longrightarrow> nvalue g \<noteq> None)"
  shows "snd (fst (analyze ast s)) = None
     \<and> (\<exists>mid cols t. fst (fst (analyze ast s)) =
          \<lparr>op = PStr ''BEGIN'', arg1 = PNone, arg2 = PNone, result = PNone\<rparr> # mid @
          [\<lparr>op = PStr ''SELECT'', arg1 = cols, arg2 = PNone, result = PStr t\<rparr>,
           \<lparr>op = PStr ''OUTPUT'', arg1 = PStr t, arg2 = PNone, result = PNone\<rparr>,
           \<lparr>op = PStr ''END'', arg1 = PNone, arg2 = PNone, result = PNone\<rparr>])
     \<and> symbol_table (snd (analyze ast s)) = symbol_table s"
proof -
  have ok: "snd (fst (analyze ast s)) = None"
    using assms by (intro analyze_succeeds) auto
  let ?b = "emit (PStr ''BEGIN'') PNone PNone PNone (reset s)"
  have f: "analyze_from_clause ast ?b = (\<lparr>main_table = None, tables = [], aliases = []\<rparr>, ?b)"
    using assms(2) by (simp add: analyze_from_clause_def from_clause_loop_none)
  have "symbol_table (snd (analyze ast s)) = symbol_table ?b"
    using assms(1) by (simp add: snd_analyze symbols_analyze_select_statement f)
  then have "symbol_table (snd (analyze ast s)) = symbol_table s"
    by (simp add: reset_def)
  with ok analyze_ok_shape [OF ok] show ?thesis
    by (auto simp: f)
qed

text \<open>
  C10 amended, at \<open>SELECT major GROUP BY major\<close> (no FROM) on a new instance.
\<close>

theorem missing_from_not_detected_witness:
  "ntype query_no_from = SELECT_STMT
   \<and> snd (fst (analyze query_no_from init)) = None
   \<and> (\<exists>mid cols t. fst (fst (analyze query_no_from init)) =
          \<lparr>op = PStr ''BEGIN'', arg1 = PNone, arg2 = PNone, result = PNone\<rparr> # mid @
          [\<lparr>op = PStr ''SELECT'', arg1 = cols, arg2 = PNone, result = PStr t\<rparr>,
           \<lparr>op = PStr ''OUTPUT'', arg1 = PStr t, arg2 = PNone, result = PNone\<rparr>,
           \<lparr>op = PStr ''END'', arg1 = PNone, arg2 = PNone, result = PNone\<rparr>])
   \<and> symbol_table (snd (analyze query_no_from init)) = symbol_table init"
proof -
  have 1: "ntype query_no_from = SELECT_STMT" by (simp add: query_no_from_def)
  have 2: "\<forall>c\<in>set (children query_no_from).
           ntype c \<noteq> TABLE_NAME \<and> ntype c \<noteq> WHERE_CLAUSE \<and> ntype c \<noteq> HAVING_CLAUSE"
    by (simp add: query_no_from_def)
  have 3: "\<forall>c\<in>set (children query_no_from). ntype c = GROUP_BY_CLAUSE \<longrightarrow>
           (\<forall>g\<in>set (children c). ntype g = IDENTIFIER \<longrightarrow> nvalue g \<noteq> None)"
    by (simp add: query_no_from_def)
  from missing_from_not_detected [OF 1 2 3, of init] 1 show ?thesis by blast
qed

end
